theory Spec2Isabelle
  imports Main
begin

section \<open>The browser: storage, timers, alerts\<close>

text \<open>
  Both implementations of the scratchpad (the plain script \<^verbatim>\<open>legacy_source/app.js\<close> and the
  component \<^verbatim>\<open>app/components/Scratchpad.tsx\<close>) run against the same browser services:
  \<^verbatim>\<open>localStorage\<close>, \<^verbatim>\<open>setTimeout\<close>/\<^verbatim>\<open>clearTimeout\<close>, \<^verbatim>\<open>alert\<close>, \<^verbatim>\<open>console.error\<close>,
  \<^verbatim>\<open>document.hidden\<close> and the \<^verbatim>\<open>dark-mode\<close> class of the document body.

  A thrown exception is a value carrying its \<^verbatim>\<open>name\<close>, the only field the code reads.
  \<^verbatim>\<open>setItem\<close> and \<^verbatim>\<open>removeItem\<close> may throw: whether they do is decided by two policies of the
  browser, functions of the current store and the arguments, about which nothing is assumed.
  A call that throws leaves the store as it was. \<^verbatim>\<open>getItem\<close> does not throw.
  Every call of \<^verbatim>\<open>setItem\<close> and \<^verbatim>\<open>removeItem\<close> is recorded in \<open>calls\<close>, whether it throws or not.

  Time is counted in milliseconds. A live timer is a triple of its handle, the time it is due
  and its callback; handles are allotted from a counter, so a handle is never reused, and a
  non-null handle is truthy (the handles of a browser are positive integers).
\<close>

datatype exn = Exn (exn_name: string)

datatype call = SetItem string string | RemoveItem string

type_synonym 'cb timer = "nat \<times> nat \<times> 'cb"

record 'cb browser =
  storage :: "string \<rightharpoonup> string"
  setItemThrows :: "(string \<rightharpoonup> string) \<Rightarrow> string \<Rightarrow> string \<Rightarrow> exn option"
  removeItemThrows :: "(string \<rightharpoonup> string) \<Rightarrow> string \<Rightarrow> exn option"
  calls :: "call list"
  alerts :: "string list"
  console :: "string list"
  now :: nat
  nextId :: nat
  timers :: "'cb timer list"
  hidden :: bool
  darkClass :: bool

definition STORAGE_KEY :: string where
  "STORAGE_KEY = ''scratchpad_notes''"

definition AUTOSAVE_DELAY :: nat where
  "AUTOSAVE_DELAY = 500"

definition SAVE_STATUS_DISPLAY_DURATION :: nat where
  "SAVE_STATUS_DISPLAY_DURATION = 2000"

definition THEME_KEY :: string where
  "THEME_KEY = ''scratchpad_theme''"

definition testKey :: string where
  "testKey = ''__localStorage_test__''"

definition getItem :: "string \<Rightarrow> ('cb, 'z) browser_scheme \<Rightarrow> string option" where
  "getItem k b = storage b k"

text \<open>The first component of the result is the exception thrown, if any.\<close>

definition setItem ::
  "string \<Rightarrow> string \<Rightarrow> ('cb, 'z) browser_scheme \<Rightarrow> exn option \<times> ('cb, 'z) browser_scheme" where
  "setItem k v b =
     (case setItemThrows b (storage b) k v of
        Some e \<Rightarrow> (Some e, b\<lparr>calls := calls b @ [SetItem k v]\<rparr>)
      | None \<Rightarrow> (None, b\<lparr>storage := (storage b)(k \<mapsto> v), calls := calls b @ [SetItem k v]\<rparr>))"

definition removeItem ::
  "string \<Rightarrow> ('cb, 'z) browser_scheme \<Rightarrow> exn option \<times> ('cb, 'z) browser_scheme" where
  "removeItem k b =
     (case removeItemThrows b (storage b) k of
        Some e \<Rightarrow> (Some e, b\<lparr>calls := calls b @ [RemoveItem k]\<rparr>)
      | None \<Rightarrow> (None, b\<lparr>storage := (storage b)(k := None), calls := calls b @ [RemoveItem k]\<rparr>))"

definition setTimeout ::
  "'cb \<Rightarrow> nat \<Rightarrow> ('cb, 'z) browser_scheme \<Rightarrow> nat \<times> ('cb, 'z) browser_scheme" where
  "setTimeout cb delay b =
     (nextId b, b\<lparr>timers := timers b @ [(nextId b, now b + delay, cb)], nextId := Suc (nextId b)\<rparr>)"

definition clearTimeout :: "nat \<Rightarrow> ('cb, 'z) browser_scheme \<Rightarrow> ('cb, 'z) browser_scheme" where
  "clearTimeout h b = b\<lparr>timers := filter (\<lambda>t. fst t \<noteq> h) (timers b)\<rparr>"

definition alert :: "string \<Rightarrow> ('cb, 'z) browser_scheme \<Rightarrow> ('cb, 'z) browser_scheme" where
  "alert msg b = b\<lparr>alerts := alerts b @ [msg]\<rparr>"

definition console_error :: "string \<Rightarrow> ('cb, 'z) browser_scheme \<Rightarrow> ('cb, 'z) browser_scheme" where
  "console_error msg b = b\<lparr>console := console b @ [msg]\<rparr>"

subsection \<open>The storage availability probe\<close>

text \<open>
  \<^verbatim>\<open>isLocalStorageAvailable\<close> has the same text in both files: write the sentinel key, remove
  it, return true; any exception is caught and gives false.
\<close>

definition isLocalStorageAvailable ::
  "('cb, 'z) browser_scheme \<Rightarrow> bool \<times> ('cb, 'z) browser_scheme" where
  "isLocalStorageAvailable b =
     (case setItem testKey ''test'' b of
        (Some e, b1) \<Rightarrow> (False, b1)
      | (None, b1) \<Rightarrow>
          (case removeItem testKey b1 of
             (Some e, b2) \<Rightarrow> (False, b2)
           | (None, b2) \<Rightarrow> (True, b2)))"

text \<open>Whether the sentinel write, and then the sentinel delete, go through in a given browser.\<close>

definition probe_passes :: "('cb, 'z) browser_scheme \<Rightarrow> bool" where
  "probe_passes b =
     (setItemThrows b (storage b) testKey ''test'' = None \<and>
      removeItemThrows b ((storage b)(testKey \<mapsto> ''test'')) testKey = None)"

section \<open>The plain script (\<^verbatim>\<open>legacy_source/app.js\<close>)\<close>

text \<open>
  The script keeps its state in two module variables (\<open>saveTimeout\<close>, \<open>statusTimeout\<close>) and
  in the page: the value of the text area, the text and the classes of the save indicator,
  the display of the error modal and of the two theme icons. \<open>listening\<close> records that
  \<^verbatim>\<open>init\<close> has registered the event listeners, which it does only after a successful probe.
  The indicator's class list is kept for the three classes the script adds and removes.

  The text area is a DOM element: \<^verbatim>\<open>notepad.value\<close> reads its value with the newlines
  normalised, every carriage return followed by a line feed, and every other carriage
  return, being a single line feed. \<open>notepad_value\<close> is what the getter returns, so an
  assignment to \<^verbatim>\<open>notepad.value\<close> stores the normalised text.
\<close>

datatype lcallback = LSaveNotes | LStatusReset

fun normalize_newlines :: "string \<Rightarrow> string" where
  "normalize_newlines [] = []"
| "normalize_newlines [c] = (if c = CHR 0x0D then [CHR 0x0A] else [c])"
| "normalize_newlines (c # d # ds) =
     (if c = CHR 0x0D \<and> d = CHR 0x0A then CHR 0x0A # normalize_newlines ds
      else if c = CHR 0x0D then CHR 0x0A # normalize_newlines (d # ds)
      else c # normalize_newlines (d # ds))"

record legacy = "lcallback browser" +
  notepad_value :: string
  saveTimeout :: "nat option"
  statusTimeout :: "nat option"
  saveStatus_text :: string
  saveIndicator_classes :: "string set"
  errorModal_display :: string
  iconSun_display :: string
  iconMoon_display :: string
  listening :: bool

definition set_notepad_value :: "string \<Rightarrow> legacy \<Rightarrow> legacy" where
  "set_notepad_value v s = s\<lparr>notepad_value := normalize_newlines v\<rparr>"

definition showError :: "legacy \<Rightarrow> legacy" where
  "showError s = s\<lparr>errorModal_display := ''flex''\<rparr>"

definition hideError :: "legacy \<Rightarrow> legacy" where
  "hideError s = s\<lparr>errorModal_display := ''none''\<rparr>"

definition updateSaveStatus :: "string \<Rightarrow> legacy \<Rightarrow> legacy" where
  "updateSaveStatus st s =
     (let s1 = (case statusTimeout s of
                  Some h \<Rightarrow> (clearTimeout h s)\<lparr>statusTimeout := None\<rparr>
                | None \<Rightarrow> s);
          s2 = s1\<lparr>saveIndicator_classes :=
                    saveIndicator_classes s1 - {''saving'', ''saved'', ''error''}\<rparr>
      in if st = ''saving'' then
           s2\<lparr>saveStatus_text := ''Saving...'',
              saveIndicator_classes := insert ''saving'' (saveIndicator_classes s2)\<rparr>
         else if st = ''saved'' then
           (let s3 = s2\<lparr>saveStatus_text := ''Saved'',
                        saveIndicator_classes := insert ''saved'' (saveIndicator_classes s2)\<rparr>;
                (h, s4) = setTimeout LStatusReset SAVE_STATUS_DISPLAY_DURATION s3
            in s4\<lparr>statusTimeout := Some h\<rparr>)
         else if st = ''error'' then
           s2\<lparr>saveStatus_text := ''Error'',
              saveIndicator_classes := insert ''error'' (saveIndicator_classes s2)\<rparr>
         else s2\<lparr>saveStatus_text := ''Auto-save on''\<rparr>)"

text \<open>The callback that \<^verbatim>\<open>updateSaveStatus('saved')\<close> schedules.\<close>

definition statusReset :: "legacy \<Rightarrow> legacy" where
  "statusReset s =
     s\<lparr>saveStatus_text := ''Auto-save on'',
       saveIndicator_classes := saveIndicator_classes s - {''saved''}\<rparr>"

definition saveNotes :: "legacy \<Rightarrow> legacy" where
  "saveNotes s =
     (case isLocalStorageAvailable s of
        (False, s1) \<Rightarrow> showError (updateSaveStatus ''error'' s1)
      | (True, s1) \<Rightarrow>
          (case setItem STORAGE_KEY (notepad_value s1) s1 of
             (None, s2) \<Rightarrow> updateSaveStatus ''saved'' s2
           | (Some e, s2) \<Rightarrow>
               (let s3 = console_error ''Error saving to localStorage:'' s2
                in if exn_name e = ''QuotaExceededError'' then
                     alert ''Storage quota exceeded. Your notes are too large. Consider clearing some content.''
                       (updateSaveStatus ''error'' s3)
                   else updateSaveStatus ''error'' s3)))"

text \<open>
  \<^verbatim>\<open>loadNotes\<close> reads the note inside a \<^verbatim>\<open>try\<close> block. \<^verbatim>\<open>getItem\<close> throws nothing, so the
  read inside the block never yields an exception; the \<^verbatim>\<open>catch\<close> branch of the source is the
  branch for one all the same.
\<close>

definition getItem_try ::
  "string \<Rightarrow> ('cb, 'z) browser_scheme \<Rightarrow> exn option \<times> string option" where
  "getItem_try k b = (None, getItem k b)"

definition loadNotes :: "legacy \<Rightarrow> legacy" where
  "loadNotes s =
     (case isLocalStorageAvailable s of
        (False, s1) \<Rightarrow> showError s1
      | (True, s1) \<Rightarrow>
          (case getItem_try STORAGE_KEY s1 of
             (Some e, x) \<Rightarrow>
               updateSaveStatus ''error'' (console_error ''Error loading from localStorage:'' s1)
           | (None, Some savedNotes) \<Rightarrow>
               updateSaveStatus ''default'' (set_notepad_value savedNotes s1)
           | (None, None) \<Rightarrow> updateSaveStatus ''default'' s1))"

definition handleInput :: "legacy \<Rightarrow> legacy" where
  "handleInput s =
     (let s1 = updateSaveStatus ''saving'' s;
          s2 = (case saveTimeout s1 of Some h \<Rightarrow> clearTimeout h s1 | None \<Rightarrow> s1);
          (h, s3) = setTimeout LSaveNotes AUTOSAVE_DELAY s2
      in s3\<lparr>saveTimeout := Some h\<rparr>)"

text \<open>
  A storage event carries \<^verbatim>\<open>key\<close> and \<^verbatim>\<open>newValue\<close>, each a string or null.
  \<^verbatim>\<open>e.newValue || ''\<close> is the empty string for null and for the empty string.
\<close>

definition or_empty :: "string option \<Rightarrow> string" where
  "or_empty v = (case v of None \<Rightarrow> [] | Some x \<Rightarrow> x)"

definition handleStorageEvent :: "string option \<Rightarrow> string option \<Rightarrow> legacy \<Rightarrow> legacy" where
  "handleStorageEvent key newValue s =
     (if key = Some STORAGE_KEY then
        (if newValue \<noteq> Some (notepad_value s) then set_notepad_value (or_empty newValue) s
         else s)
      else s)"

definition updateThemeUI :: "bool \<Rightarrow> legacy \<Rightarrow> legacy" where
  "updateThemeUI isDark s =
     (if isDark then s\<lparr>iconSun_display := ''none'', iconMoon_display := ''block'', darkClass := True\<rparr>
      else s\<lparr>iconSun_display := ''block'', iconMoon_display := ''none'', darkClass := False\<rparr>)"

text \<open>\<^verbatim>\<open>handleThemeToggle\<close> calls \<^verbatim>\<open>setItem\<close> outside any \<^verbatim>\<open>try\<close>: an exception ends the handler.\<close>

definition handleThemeToggle :: "legacy \<Rightarrow> legacy" where
  "handleThemeToggle s =
     (let newIsDark = \<not> darkClass s;
          s1 = updateThemeUI newIsDark s
      in snd (setItem THEME_KEY (if newIsDark then ''dark'' else ''light'') s1))"

definition initTheme :: "legacy \<Rightarrow> legacy" where
  "initTheme s =
     (let savedTheme = getItem THEME_KEY s;
          isDark = (savedTheme = Some ''dark'')
      in updateThemeUI isDark s)"

text \<open>The two anonymous listeners that \<^verbatim>\<open>init\<close> registers.\<close>

definition onBeforeUnload :: "legacy \<Rightarrow> legacy" where
  "onBeforeUnload s =
     (case saveTimeout s of
        Some h \<Rightarrow> saveNotes (clearTimeout h s)
      | None \<Rightarrow> s)"

definition onVisibilityChange :: "legacy \<Rightarrow> legacy" where
  "onVisibilityChange s =
     (if hidden s then
        (case saveTimeout s of
           Some h \<Rightarrow> saveNotes (clearTimeout h s)
         | None \<Rightarrow> s)
      else s)"

text \<open>
  \<^verbatim>\<open>init\<close>: focusing the text area and placing the cursor change nothing that is modelled.
\<close>

definition init :: "legacy \<Rightarrow> legacy" where
  "init s =
     (let s1 = initTheme s in
      case isLocalStorageAvailable s1 of
        (False, s2) \<Rightarrow> showError s2
      | (True, s2) \<Rightarrow> (loadNotes s2)\<lparr>listening := True\<rparr>)"

subsection \<open>Events and the passing of time\<close>

text \<open>
  What can happen to the page: the user edits the text (\<open>Input v\<close>: the \<^verbatim>\<open>input\<close> event is
  delivered and \<open>v\<close> is the value the text area then reports), another tab's write is notified, the
  document's visibility changes, the page is about to unload, the theme toggle or the
  modal's button is clicked, or a number of milliseconds pass.

  Each millisecond the clock moves on and the timers then due run, in the order they were
  scheduled; a timer cancelled by a callback run before it does not run. A timer that runs
  is no longer live. The delays are positive, so a callback never schedules a timer that is
  due in the same millisecond.
\<close>

datatype event =
    Input string
  | StorageEvent "string option" "string option"
  | VisibilityChange bool
  | BeforeUnload
  | ThemeToggle
  | CloseError
  | Elapse nat

definition is_due :: "nat \<Rightarrow> 'cb timer \<Rightarrow> bool" where
  "is_due t tm = (fst (snd tm) \<le> t)"

definition is_live :: "nat \<Rightarrow> ('cb, 'z) browser_scheme \<Rightarrow> bool" where
  "is_live h b = (h \<in> set (map fst (timers b)))"

definition l_callback :: "lcallback \<Rightarrow> legacy \<Rightarrow> legacy" where
  "l_callback cb s = (case cb of LSaveNotes \<Rightarrow> saveNotes s | LStatusReset \<Rightarrow> statusReset s)"

fun l_fire :: "lcallback timer list \<Rightarrow> legacy \<Rightarrow> legacy" where
  "l_fire [] s = s"
| "l_fire (tm # tms) s =
     l_fire tms (if is_live (fst tm) s then l_callback (snd (snd tm)) (clearTimeout (fst tm) s)
                 else s)"

definition l_tick :: "legacy \<Rightarrow> legacy" where
  "l_tick s = (let s1 = s\<lparr>now := Suc (now s)\<rparr> in l_fire (filter (is_due (now s1)) (timers s1)) s1)"

primrec l_elapse :: "nat \<Rightarrow> legacy \<Rightarrow> legacy" where
  "l_elapse 0 s = s"
| "l_elapse (Suc n) s = l_elapse n (l_tick s)"

definition l_step :: "event \<Rightarrow> legacy \<Rightarrow> legacy" where
  "l_step e s =
     (case e of
        Input v \<Rightarrow> (let s1 = s\<lparr>notepad_value := v\<rparr> in if listening s then handleInput s1 else s1)
      | StorageEvent k v \<Rightarrow> (if listening s then handleStorageEvent k v s else s)
      | VisibilityChange h \<Rightarrow>
          (let s1 = s\<lparr>hidden := h\<rparr> in if listening s then onVisibilityChange s1 else s1)
      | BeforeUnload \<Rightarrow> (if listening s then onBeforeUnload s else s)
      | ThemeToggle \<Rightarrow> (if listening s then handleThemeToggle s else s)
      | CloseError \<Rightarrow> (if listening s then hideError s else s)
      | Elapse n \<Rightarrow> l_elapse n s)"

fun l_run :: "event list \<Rightarrow> legacy \<Rightarrow> legacy" where
  "l_run [] s = s"
| "l_run (e # es) s = l_run es (l_step e s)"

section \<open>The component (\<^verbatim>\<open>app/components/Scratchpad.tsx\<close>)\<close>

text \<open>
  The component's state is its five state variables and its two timer references. A state
  update is taken to be rendered, and the effects that depend on it re-run, before the next
  event is delivered, so the \<^verbatim>\<open>content\<close> that a listener reads is the current one. The save
  timer's callback carries the text it was scheduled with. \<^verbatim>\<open>saveNotes\<close> is declared
  \<^verbatim>\<open>async\<close> but awaits nothing: its body runs to the end when it is called.
\<close>

datatype status = Default | Saving | Saved | Error

datatype rcallback = RSaveNotes string | RStatusReset

record react = "rcallback browser" +
  content :: string
  status :: status
  showErrorModal :: bool
  isDark :: bool
  isLoaded :: bool
  saveTimeoutRef :: "nat option"
  statusTimeoutRef :: "nat option"

definition updateThemeBody :: "bool \<Rightarrow> react \<Rightarrow> react" where
  "updateThemeBody dark s = (if dark then s\<lparr>darkClass := True\<rparr> else s\<lparr>darkClass := False\<rparr>)"

definition toggleTheme :: "react \<Rightarrow> react" where
  "toggleTheme s =
     (let newDark = \<not> isDark s;
          s1 = updateThemeBody newDark (s\<lparr>isDark := newDark\<rparr>)
      in snd (setItem THEME_KEY (if newDark then ''dark'' else ''light'') s1))"

definition r_saveNotes :: "string \<Rightarrow> react \<Rightarrow> react" where
  "r_saveNotes text s =
     (case isLocalStorageAvailable s of
        (False, s1) \<Rightarrow> s1\<lparr>status := Error, showErrorModal := True\<rparr>
      | (True, s1) \<Rightarrow>
          (case setItem STORAGE_KEY text s1 of
             (None, s2) \<Rightarrow>
               (let s3 = s2\<lparr>status := Saved\<rparr>;
                    s4 = (case statusTimeoutRef s3 of Some h \<Rightarrow> clearTimeout h s3 | None \<Rightarrow> s3);
                    (h, s5) = setTimeout RStatusReset SAVE_STATUS_DISPLAY_DURATION s4
                in s5\<lparr>statusTimeoutRef := Some h\<rparr>)
           | (Some e, s2) \<Rightarrow>
               (let s3 = (console_error ''Error saving to localStorage:'' s2)\<lparr>status := Error\<rparr>
                in if exn_name e = ''QuotaExceededError'' then
                     alert ''Storage quota exceeded. Your notes are too large.'' s3
                   else s3)))"

definition r_handleInput :: "string \<Rightarrow> react \<Rightarrow> react" where
  "r_handleInput newContent s =
     (let s1 = s\<lparr>content := newContent, status := Saving\<rparr>;
          s2 = (case saveTimeoutRef s1 of Some h \<Rightarrow> clearTimeout h s1 | None \<Rightarrow> s1);
          (h, s3) = setTimeout (RSaveNotes newContent) AUTOSAVE_DELAY s2
      in s3\<lparr>saveTimeoutRef := Some h\<rparr>)"

definition handleStorage :: "string option \<Rightarrow> string option \<Rightarrow> react \<Rightarrow> react" where
  "handleStorage key newValue s =
     (if key = Some STORAGE_KEY \<and> newValue \<noteq> Some (content s) then s\<lparr>content := or_empty newValue\<rparr>
      else s)"

definition handleVisibilityChange :: "react \<Rightarrow> react" where
  "handleVisibilityChange s =
     (if hidden s then
        (case saveTimeoutRef s of
           Some h \<Rightarrow> r_saveNotes (content s) (clearTimeout h s)
         | None \<Rightarrow> s)
      else s)"

definition handleBeforeUnload :: "react \<Rightarrow> react" where
  "handleBeforeUnload s =
     (case saveTimeoutRef s of
        Some h \<Rightarrow> r_saveNotes (content s) s
      | None \<Rightarrow> s)"

text \<open>The effect run once when the component mounts.\<close>

definition mount :: "react \<Rightarrow> react" where
  "mount s =
     (let savedTheme = getItem THEME_KEY s;
          initialDark = (savedTheme = Some ''dark'');
          s1 = updateThemeBody initialDark (s\<lparr>isDark := initialDark\<rparr>);
          s3 = (case isLocalStorageAvailable s1 of
                  (True, s2) \<Rightarrow>
                    (case getItem STORAGE_KEY s2 of
                       Some savedNotes \<Rightarrow> s2\<lparr>content := savedNotes\<rparr>
                     | None \<Rightarrow> s2)
                | (False, s2) \<Rightarrow> s2\<lparr>showErrorModal := True\<rparr>)
      in s3\<lparr>isLoaded := True\<rparr>)"

definition getStatusText :: "react \<Rightarrow> string" where
  "getStatusText s =
     (case status s of
        Saving \<Rightarrow> ''Saving...''
      | Saved \<Rightarrow> ''Saved''
      | Error \<Rightarrow> ''Error''
      | Default \<Rightarrow> ''Auto-save on'')"

subsection \<open>Events and the passing of time\<close>

text \<open>
  Nothing is rendered, so no event reaches the component, until \<open>isLoaded\<close> is set. The
  listeners of \<^verbatim>\<open>window\<close> and \<^verbatim>\<open>document\<close> are registered by effects that run at the first
  render, whatever the probe returned.

  For the component \<open>Input v\<close> is a call of its \<^verbatim>\<open>onChange\<close> handler with \<open>v\<close> as
  \<^verbatim>\<open>e.target.value\<close>. The framework makes that call for an edit only if the text area's value
  differs from the value it last saw there: \<open>r_user_step\<close> below is what an edit of the user
  does.
\<close>

definition r_callback :: "rcallback \<Rightarrow> react \<Rightarrow> react" where
  "r_callback cb s =
     (case cb of RSaveNotes text \<Rightarrow> r_saveNotes text s | RStatusReset \<Rightarrow> s\<lparr>status := Default\<rparr>)"

fun r_fire :: "rcallback timer list \<Rightarrow> react \<Rightarrow> react" where
  "r_fire [] s = s"
| "r_fire (tm # tms) s =
     r_fire tms (if is_live (fst tm) s then r_callback (snd (snd tm)) (clearTimeout (fst tm) s)
                 else s)"

definition r_tick :: "react \<Rightarrow> react" where
  "r_tick s = (let s1 = s\<lparr>now := Suc (now s)\<rparr> in r_fire (filter (is_due (now s1)) (timers s1)) s1)"

primrec r_elapse :: "nat \<Rightarrow> react \<Rightarrow> react" where
  "r_elapse 0 s = s"
| "r_elapse (Suc n) s = r_elapse n (r_tick s)"

definition r_step :: "event \<Rightarrow> react \<Rightarrow> react" where
  "r_step e s =
     (case e of
        Input v \<Rightarrow> (if isLoaded s then r_handleInput v s else s)
      | StorageEvent k v \<Rightarrow> (if isLoaded s then handleStorage k v s else s)
      | VisibilityChange h \<Rightarrow>
          (let s1 = s\<lparr>hidden := h\<rparr> in if isLoaded s then handleVisibilityChange s1 else s1)
      | BeforeUnload \<Rightarrow> (if isLoaded s then handleBeforeUnload s else s)
      | ThemeToggle \<Rightarrow> (if isLoaded s then toggleTheme s else s)
      | CloseError \<Rightarrow> (if isLoaded s then s\<lparr>showErrorModal := False\<rparr> else s)
      | Elapse n \<Rightarrow> r_elapse n s)"

fun r_run :: "event list \<Rightarrow> react \<Rightarrow> react" where
  "r_run [] s = s"
| "r_run (e # es) s = r_run es (r_step e s)"



section \<open>Starting states\<close>

text \<open>
  The page as the browser hands it to the code: a store and the two policies, the clock at
  zero, no timer, the first handle being 1, the document visible and in light mode. The
  markup of the script's page is not among the sources: its indicator is taken to show the
  neutral text with none of the three classes, the modal to be hidden and the sun icon to be
  shown. \<open>init\<close> overwrites the text and the icons whenever its probes pass.
\<close>

definition legacy_start ::
  "(string \<rightharpoonup> string) \<Rightarrow> ((string \<rightharpoonup> string) \<Rightarrow> string \<Rightarrow> string \<Rightarrow> exn option) \<Rightarrow>
   ((string \<rightharpoonup> string) \<Rightarrow> string \<Rightarrow> exn option) \<Rightarrow> legacy" where
  "legacy_start m ps pr =
     \<lparr>storage = m, setItemThrows = ps, removeItemThrows = pr, calls = [], alerts = [],
      console = [], now = 0, nextId = 1, timers = [], hidden = False, darkClass = False,
      notepad_value = [], saveTimeout = None, statusTimeout = None,
      saveStatus_text = ''Auto-save on'', saveIndicator_classes = {},
      errorModal_display = ''none'', iconSun_display = ''block'', iconMoon_display = ''none'',
      listening = False\<rparr>"

definition react_start ::
  "(string \<rightharpoonup> string) \<Rightarrow> ((string \<rightharpoonup> string) \<Rightarrow> string \<Rightarrow> string \<Rightarrow> exn option) \<Rightarrow>
   ((string \<rightharpoonup> string) \<Rightarrow> string \<Rightarrow> exn option) \<Rightarrow> react" where
  "react_start m ps pr =
     \<lparr>storage = m, setItemThrows = ps, removeItemThrows = pr, calls = [], alerts = [],
      console = [], now = 0, nextId = 1, timers = [], hidden = False, darkClass = False,
      content = [], status = Default, showErrorModal = False, isDark = False, isLoaded = False,
      saveTimeoutRef = None, statusTimeoutRef = None\<rparr>"

text \<open>A store that never throws, and one whose every write throws the given exception.\<close>

definition never_set :: "(string \<rightharpoonup> string) \<Rightarrow> string \<Rightarrow> string \<Rightarrow> exn option" where
  "never_set m k v = None"

definition never_remove :: "(string \<rightharpoonup> string) \<Rightarrow> string \<Rightarrow> exn option" where
  "never_remove m k = None"

definition always_set :: "exn \<Rightarrow> (string \<rightharpoonup> string) \<Rightarrow> string \<Rightarrow> string \<Rightarrow> exn option" where
  "always_set e m k v = Some e"

text \<open>A store that takes the sentinel but throws the given exception on every other key.\<close>

definition sentinel_only :: "exn \<Rightarrow> (string \<rightharpoonup> string) \<Rightarrow> string \<Rightarrow> string \<Rightarrow> exn option" where
  "sentinel_only e m k v = (if k = testKey then None else Some e)"

section \<open>Notions used to state the properties\<close>

text \<open>
  What the probe leaves in the store and which calls it makes: the sentinel write alone when
  it throws, otherwise the write and the delete; the sentinel stays in the store when the
  delete throws.
\<close>

definition probe_storage :: "('cb, 'z) browser_scheme \<Rightarrow> (string \<rightharpoonup> string)" where
  "probe_storage b =
     (if setItemThrows b (storage b) testKey ''test'' \<noteq> None then storage b
      else if removeItemThrows b ((storage b)(testKey \<mapsto> ''test'')) testKey \<noteq> None
        then (storage b)(testKey \<mapsto> ''test'')
      else (storage b)(testKey := None))"

definition probe_calls :: "('cb, 'z) browser_scheme \<Rightarrow> call list" where
  "probe_calls b =
     (if setItemThrows b (storage b) testKey ''test'' \<noteq> None then [SetItem testKey ''test'']
      else [SetItem testKey ''test'', RemoveItem testKey])"

text \<open>The live timers left when the timer of a handle variable, if it holds one, is cleared.\<close>

definition cleared :: "nat option \<Rightarrow> 'cb timer list \<Rightarrow> 'cb timer list" where
  "cleared ho ts = filter (\<lambda>t. Some (fst t) \<noteq> ho) ts"

definition status_classes :: "string set" where
  "status_classes = {''saving'', ''saved'', ''error''}"

text \<open>
  The exception, if any, that the write of the note content throws once the probe has run:
  in the script the text area's value is written, in the component the text passed to
  \<open>r_saveNotes\<close>.
\<close>

definition write_throws :: "legacy \<Rightarrow> exn option" where
  "write_throws s = setItemThrows s (probe_storage s) STORAGE_KEY (notepad_value s)"

definition r_write_throws :: "string \<Rightarrow> react \<Rightarrow> exn option" where
  "r_write_throws text s = setItemThrows s (probe_storage s) STORAGE_KEY text"

subsection \<open>Live timers and their handles\<close>

definition l_is_save :: "lcallback \<Rightarrow> bool" where
  "l_is_save cb = (cb = LSaveNotes)"

fun r_is_save :: "rcallback \<Rightarrow> bool" where
  "r_is_save (RSaveNotes v) = True"
| "r_is_save RStatusReset = False"

definition l_save_timers :: "legacy \<Rightarrow> lcallback timer list" where
  "l_save_timers s = filter (\<lambda>tm. l_is_save (snd (snd tm))) (timers s)"

definition l_status_timers :: "legacy \<Rightarrow> lcallback timer list" where
  "l_status_timers s = filter (\<lambda>tm. \<not> l_is_save (snd (snd tm))) (timers s)"

definition r_save_timers :: "react \<Rightarrow> rcallback timer list" where
  "r_save_timers s = filter (\<lambda>tm. r_is_save (snd (snd tm))) (timers s)"

definition r_status_timers :: "react \<Rightarrow> rcallback timer list" where
  "r_status_timers s = filter (\<lambda>tm. \<not> r_is_save (snd (snd tm))) (timers s)"

text \<open>
  The discipline of the two handle variables, for a list of live timers \<open>ts\<close>, the handle
  counter \<open>n\<close>, the save handle \<open>sv\<close> and the status handle \<open>st\<close>: every live handle has
  been allotted, no two live timers share a handle, every live save timer is the one held
  in the save handle and every live status-reset timer the one held in the status handle.
\<close>

definition timers_wf ::
  "('cb \<Rightarrow> bool) \<Rightarrow> 'cb timer list \<Rightarrow> nat \<Rightarrow> nat option \<Rightarrow> nat option \<Rightarrow> bool" where
  "timers_wf isv ts n sv st =
     ((\<forall>tm\<in>set ts. fst tm < n) \<and> distinct (map fst ts) \<and>
      (\<forall>tm\<in>set ts. isv (snd (snd tm)) \<longrightarrow> sv = Some (fst tm)) \<and>
      (\<forall>tm\<in>set ts. \<not> isv (snd (snd tm)) \<longrightarrow> st = Some (fst tm)))"

definition l_inv :: "legacy \<Rightarrow> bool" where
  "l_inv s = timers_wf l_is_save (timers s) (nextId s) (saveTimeout s) (statusTimeout s)"

definition r_inv :: "react \<Rightarrow> bool" where
  "r_inv s = timers_wf r_is_save (timers s) (nextId s) (saveTimeoutRef s) (statusTimeoutRef s)"

subsection \<open>Reachable states\<close>

text \<open>
  The script also publishes \<^verbatim>\<open>window.scratchpad\<close> with \<^verbatim>\<open>saveNotes\<close>, \<^verbatim>\<open>loadNotes\<close> and
  \<^verbatim>\<open>clearNotes\<close>, which can be called from the console at any time; \<^verbatim>\<open>clearNotes\<close> asks for
  confirmation first.
\<close>

datatype debug = DebugSave | DebugLoad | DebugClear bool

definition clearNotes :: "bool \<Rightarrow> legacy \<Rightarrow> legacy" where
  "clearNotes confirmed s = (if confirmed then saveNotes (set_notepad_value [] s) else s)"

definition l_debug :: "debug \<Rightarrow> legacy \<Rightarrow> legacy" where
  "l_debug d s =
     (case d of DebugSave \<Rightarrow> saveNotes s | DebugLoad \<Rightarrow> loadNotes s
      | DebugClear confirmed \<Rightarrow> clearNotes confirmed s)"

text \<open>
  The script starts on a page on which it has scheduled no timer and its two handle
  variables are null, and runs \<open>init\<close>; the component starts with its initial state values
  and no timer, and runs its mount effect. From there any event may follow any other.
\<close>

inductive legacy_reachable :: "legacy \<Rightarrow> bool" where
  l_start: "timers s = [] \<Longrightarrow> saveTimeout s = None \<Longrightarrow> statusTimeout s = None \<Longrightarrow>
            legacy_reachable (init s)"
| l_event: "legacy_reachable s \<Longrightarrow> legacy_reachable (l_step e s)"
| l_console: "legacy_reachable s \<Longrightarrow> legacy_reachable (l_debug d s)"

inductive react_reachable :: "react \<Rightarrow> bool" where
  r_start: "timers s = [] \<Longrightarrow> saveTimeoutRef s = None \<Longrightarrow> statusTimeoutRef s = None \<Longrightarrow>
            react_reachable (mount s)"
| r_event: "react_reachable s \<Longrightarrow> react_reachable (r_step e s)"

subsection \<open>The status resets of one millisecond\<close>

text \<open>
  The state after the clock has moved on by a millisecond and those of the status-reset
  timers \<open>us\<close> that are then due have run, \<open>ss\<close> being the other live timers.
\<close>

definition l_after_resets :: "lcallback timer list \<Rightarrow> lcallback timer list \<Rightarrow> legacy \<Rightarrow> legacy" where
  "l_after_resets us ss s =
     (let t = Suc (now s); fired = (\<exists>u\<in>set us. is_due t u)
      in s\<lparr>now := t, timers := filter (\<lambda>u. \<not> is_due t u) us @ ss,
           saveStatus_text := (if fired then ''Auto-save on'' else saveStatus_text s),
           saveIndicator_classes :=
             (if fired then saveIndicator_classes s - {''saved''} else saveIndicator_classes s)\<rparr>)"

definition r_after_resets :: "rcallback timer list \<Rightarrow> rcallback timer list \<Rightarrow> react \<Rightarrow> react" where
  "r_after_resets us ss s =
     (let t = Suc (now s); fired = (\<exists>u\<in>set us. is_due t u)
      in s\<lparr>now := t, timers := filter (\<lambda>u. \<not> is_due t u) us @ ss,
           status := (if fired then Default else status s)\<rparr>)"

subsection \<open>Bursts of input\<close>

text \<open>
  Two browsers agree on the store when they hold the same store, follow the same policies
  and have made the same storage calls.
\<close>

definition same_store :: "('cb, 'z) browser_scheme \<Rightarrow> ('cc, 'y) browser_scheme \<Rightarrow> bool" where
  "same_store a b =
     (storage a = storage b \<and> setItemThrows a = setItemThrows b \<and>
      removeItemThrows a = removeItemThrows b \<and> calls a = calls b)"

text \<open>
  A save of the text \<open>v\<close> is pending for the time \<open>d\<close>: the save timer is live and due
  at \<open>d\<close>, it is the last timer scheduled, and the timers before it are status resets.
\<close>

definition l_pending :: "string \<Rightarrow> nat \<Rightarrow> legacy \<Rightarrow> bool" where
  "l_pending v d s =
     (l_inv s \<and> listening s \<and> notepad_value s = v \<and>
      (\<exists>h. timers s = [(h, d, LSaveNotes)]))"

definition r_pending :: "string \<Rightarrow> nat \<Rightarrow> react \<Rightarrow> bool" where
  "r_pending v d s =
     (r_inv s \<and> isLoaded s \<and> content s = v \<and>
      (\<exists>us h. timers s = us @ [(h, d, RSaveNotes v)] \<and>
         (\<forall>u\<in>set us. snd (snd u) = RStatusReset)))"

text \<open>No save timer is live: every live timer is a status reset.\<close>

definition l_quiet :: "legacy \<Rightarrow> bool" where
  "l_quiet s = (l_inv s \<and> (\<forall>u\<in>set (timers s). snd (snd u) = LStatusReset))"

definition r_quiet :: "react \<Rightarrow> bool" where
  "r_quiet s = (r_inv s \<and> (\<forall>u\<in>set (timers s). snd (snd u) = RStatusReset))"

text \<open>
  A burst: each entry is the time that passes since the event before it, and the text the
  text area then holds. The values written to the note-content key, in order.
\<close>

definition burst :: "(nat \<times> string) list \<Rightarrow> event list" where
  "burst gs = concat (map (\<lambda>(g, v). [Elapse g, Input v]) gs)"

fun notes_write :: "call \<Rightarrow> string option" where
  "notes_write (SetItem k v) = (if k = STORAGE_KEY then Some v else None)"
| "notes_write (RemoveItem k) = None"

definition notes_writes :: "call list \<Rightarrow> string list" where
  "notes_writes cs = List.map_filter notes_write cs"

text \<open>
  Four pages used in the examples: the script and the component started on an empty store
  that never throws, and the two started on a store whose every write throws.
\<close>

definition legacy_ok :: legacy where
  "legacy_ok = init (legacy_start Map.empty never_set never_remove)"

definition react_ok :: react where
  "react_ok = mount (react_start Map.empty never_set never_remove)"

definition react_blocked :: react where
  "react_blocked = mount (react_start Map.empty (always_set (Exn ''SecurityError'')) never_remove)"


subsection \<open>Comparing the script and the component\<close>

text \<open>
  The status the script shows, read off the text of its indicator as \<open>getStatusText\<close>
  writes it in the component.
\<close>

definition legacy_status :: "legacy \<Rightarrow> status" where
  "legacy_status s =
     (if saveStatus_text s = ''Saving...'' then Saving
      else if saveStatus_text s = ''Saved'' then Saved
      else if saveStatus_text s = ''Error'' then Error
      else Default)"










section \<open>Auxiliary facts\<close>

lemma probe_eq:
  "isLocalStorageAvailable b =
     (probe_passes b, b\<lparr>storage := probe_storage b, calls := calls b @ probe_calls b\<rparr>)"
  by (auto simp: isLocalStorageAvailable_def probe_passes_def probe_storage_def probe_calls_def
      setItem_def removeItem_def split: option.splits)

lemma normalize_newlines_id: "CHR 0x0D \<notin> set v \<Longrightarrow> normalize_newlines v = v"
  by (induction v rule: normalize_newlines.induct) auto

lemma cleared_None [simp]: "cleared None ts = ts"
  by (simp add: cleared_def)

lemma clear_handle:
  "(case ho of Some h \<Rightarrow> clearTimeout h s | None \<Rightarrow> s) = s\<lparr>timers := cleared ho (timers s)\<rparr>"
  by (cases ho) (simp_all add: clearTimeout_def cleared_def)

lemma updateSaveStatus_saving:
  "updateSaveStatus ''saving'' s =
     s\<lparr>timers := cleared (statusTimeout s) (timers s), statusTimeout := None,
       saveStatus_text := ''Saving...'',
       saveIndicator_classes := insert ''saving'' (saveIndicator_classes s - status_classes)\<rparr>"
  by (cases "statusTimeout s")
     (simp_all add: updateSaveStatus_def clearTimeout_def cleared_def status_classes_def)

lemma updateSaveStatus_saved:
  "updateSaveStatus ''saved'' s =
     s\<lparr>timers := cleared (statusTimeout s) (timers s)
                   @ [(nextId s, now s + SAVE_STATUS_DISPLAY_DURATION, LStatusReset)],
       nextId := Suc (nextId s), statusTimeout := Some (nextId s),
       saveStatus_text := ''Saved'',
       saveIndicator_classes := insert ''saved'' (saveIndicator_classes s - status_classes)\<rparr>"
  by (cases "statusTimeout s")
     (simp_all add: updateSaveStatus_def clearTimeout_def cleared_def status_classes_def
        setTimeout_def)

lemma updateSaveStatus_error:
  "updateSaveStatus ''error'' s =
     s\<lparr>timers := cleared (statusTimeout s) (timers s), statusTimeout := None,
       saveStatus_text := ''Error'',
       saveIndicator_classes := insert ''error'' (saveIndicator_classes s - status_classes)\<rparr>"
  by (cases "statusTimeout s")
     (simp_all add: updateSaveStatus_def clearTimeout_def cleared_def status_classes_def)

lemma updateSaveStatus_default:
  "updateSaveStatus ''default'' s =
     s\<lparr>timers := cleared (statusTimeout s) (timers s), statusTimeout := None,
       saveStatus_text := ''Auto-save on'',
       saveIndicator_classes := saveIndicator_classes s - status_classes\<rparr>"
  by (cases "statusTimeout s")
     (simp_all add: updateSaveStatus_def clearTimeout_def cleared_def status_classes_def)

lemma handleInput_eq:
  "handleInput s =
     s\<lparr>timers := cleared (saveTimeout s) (cleared (statusTimeout s) (timers s))
                   @ [(nextId s, now s + AUTOSAVE_DELAY, LSaveNotes)],
       nextId := Suc (nextId s), saveTimeout := Some (nextId s), statusTimeout := None,
       saveStatus_text := ''Saving...'',
       saveIndicator_classes := insert ''saving'' (saveIndicator_classes s - status_classes)\<rparr>"
  by (cases "saveTimeout s")
     (simp_all add: handleInput_def updateSaveStatus_saving clearTimeout_def cleared_def
        setTimeout_def)

lemma saveNotes_unavailable:
  "\<not> probe_passes s \<Longrightarrow>
   saveNotes s =
     s\<lparr>storage := probe_storage s, calls := calls s @ probe_calls s,
       timers := cleared (statusTimeout s) (timers s), statusTimeout := None,
       saveStatus_text := ''Error'',
       saveIndicator_classes := insert ''error'' (saveIndicator_classes s - status_classes),
       errorModal_display := ''flex''\<rparr>"
  by (simp add: saveNotes_def probe_eq updateSaveStatus_error showError_def)

lemma saveNotes_saved:
  "probe_passes s \<Longrightarrow> write_throws s = None \<Longrightarrow>
   saveNotes s =
     s\<lparr>storage := (probe_storage s)(STORAGE_KEY \<mapsto> notepad_value s),
       calls := calls s @ probe_calls s @ [SetItem STORAGE_KEY (notepad_value s)],
       timers := cleared (statusTimeout s) (timers s)
                   @ [(nextId s, now s + SAVE_STATUS_DISPLAY_DURATION, LStatusReset)],
       nextId := Suc (nextId s), statusTimeout := Some (nextId s),
       saveStatus_text := ''Saved'',
       saveIndicator_classes := insert ''saved'' (saveIndicator_classes s - status_classes)\<rparr>"
  by (simp add: saveNotes_def probe_eq write_throws_def setItem_def updateSaveStatus_saved)

lemma saveNotes_throws:
  "probe_passes s \<Longrightarrow> write_throws s = Some e \<Longrightarrow>
   saveNotes s =
     s\<lparr>calls := calls s @ probe_calls s @ [SetItem STORAGE_KEY (notepad_value s)],
       storage := probe_storage s,
       console := console s @ [''Error saving to localStorage:''],
       alerts := alerts s @ (if exn_name e = ''QuotaExceededError'' then
         [''Storage quota exceeded. Your notes are too large. Consider clearing some content.'']
         else []),
       timers := cleared (statusTimeout s) (timers s), statusTimeout := None,
       saveStatus_text := ''Error'',
       saveIndicator_classes := insert ''error'' (saveIndicator_classes s - status_classes)\<rparr>"
  by (simp add: saveNotes_def probe_eq write_throws_def setItem_def updateSaveStatus_error
      console_error_def alert_def)

lemma r_handleInput_eq:
  "r_handleInput v s =
     s\<lparr>timers := cleared (saveTimeoutRef s) (timers s)
                   @ [(nextId s, now s + AUTOSAVE_DELAY, RSaveNotes v)],
       nextId := Suc (nextId s), content := v, status := Saving,
       saveTimeoutRef := Some (nextId s)\<rparr>"
  by (cases "saveTimeoutRef s")
     (simp_all add: r_handleInput_def clearTimeout_def cleared_def setTimeout_def)

lemma r_saveNotes_unavailable:
  "\<not> probe_passes s \<Longrightarrow>
   r_saveNotes text s =
     s\<lparr>storage := probe_storage s, calls := calls s @ probe_calls s,
       status := Error, showErrorModal := True\<rparr>"
  by (simp add: r_saveNotes_def probe_eq)

lemma r_saveNotes_saved:
  "probe_passes s \<Longrightarrow> r_write_throws text s = None \<Longrightarrow>
   r_saveNotes text s =
     s\<lparr>storage := (probe_storage s)(STORAGE_KEY \<mapsto> text),
       calls := calls s @ probe_calls s @ [SetItem STORAGE_KEY text],
       timers := cleared (statusTimeoutRef s) (timers s)
                   @ [(nextId s, now s + SAVE_STATUS_DISPLAY_DURATION, RStatusReset)],
       nextId := Suc (nextId s), status := Saved, statusTimeoutRef := Some (nextId s)\<rparr>"
  by (cases "statusTimeoutRef s")
     (simp_all add: r_saveNotes_def probe_eq r_write_throws_def setItem_def clearTimeout_def
        cleared_def setTimeout_def)

lemma r_saveNotes_throws:
  "probe_passes s \<Longrightarrow> r_write_throws text s = Some e \<Longrightarrow>
   r_saveNotes text s =
     s\<lparr>calls := calls s @ probe_calls s @ [SetItem STORAGE_KEY text],
       storage := probe_storage s,
       console := console s @ [''Error saving to localStorage:''],
       alerts := alerts s @ (if exn_name e = ''QuotaExceededError'' then
         [''Storage quota exceeded. Your notes are too large.''] else []),
       status := Error\<rparr>"
  by (simp add: r_saveNotes_def probe_eq r_write_throws_def setItem_def console_error_def
      alert_def)

lemma updateSaveStatus_dark: "darkClass (updateSaveStatus st s) = darkClass s"
  by (simp add: updateSaveStatus_def clearTimeout_def setTimeout_def Let_def split: option.splits)

lemma loadNotes_dark: "darkClass (loadNotes s) = darkClass s"
  by (simp add: loadNotes_def getItem_try_def set_notepad_value_def probe_eq showError_def getItem_def updateSaveStatus_dark
      split: option.splits bool.splits)

subsection \<open>The handle discipline is kept\<close>

lemma timers_wf_cleared:
  "timers_wf isv ts n sv st \<Longrightarrow> timers_wf isv (cleared h ts) n sv st"
  by (auto simp: timers_wf_def cleared_def distinct_map_filter)

lemma timers_wf_clear_save:
  "timers_wf isv ts n sv st \<Longrightarrow> timers_wf isv (cleared sv ts) n sv' st"
  by (auto simp: timers_wf_def cleared_def distinct_map_filter)

lemma timers_wf_clear_status:
  "timers_wf isv ts n sv st \<Longrightarrow> timers_wf isv (cleared st ts) n sv st'"
  by (auto simp: timers_wf_def cleared_def distinct_map_filter)

lemma timers_wf_add_save:
  assumes "timers_wf isv ts n sv st" and "isv cb"
  shows "timers_wf isv (cleared sv ts @ [(n, d, cb)]) (Suc n) (Some n) st"
  using assms by (fastforce simp: timers_wf_def cleared_def distinct_map_filter)

lemma timers_wf_add_status:
  assumes "timers_wf isv ts n sv st" and "\<not> isv cb"
  shows "timers_wf isv (cleared st ts @ [(n, d, cb)]) (Suc n) sv (Some n)"
  using assms by (fastforce simp: timers_wf_def cleared_def distinct_map_filter)

lemma timers_wf_at_most_one:
  assumes "timers_wf isv ts n sv st"
  shows "length (filter (\<lambda>tm. isv (snd (snd tm))) ts) \<le> 1"
    and "length (filter (\<lambda>tm. \<not> isv (snd (snd tm))) ts) \<le> 1"
proof -
  have one: "length xs \<le> 1" if "distinct (map fst xs)" "\<forall>x\<in>set xs. fst x = c"
    for xs :: "'a timer list" and c
  proof (cases xs)
    case Nil
    then show ?thesis by simp
  next
    case (Cons x ys)
    show ?thesis
    proof (cases ys)
      case Nil
      with Cons show ?thesis by simp
    next
      case (Cons y zs)
      with \<open>xs = x # ys\<close> that have "fst x = fst y" "fst x \<noteq> fst y"
        by auto
      then show ?thesis by simp
    qed
  qed
  have d: "distinct (map fst (filter P ts))" for P
    using assms by (simp add: timers_wf_def distinct_map_filter)
  show "length (filter (\<lambda>tm. isv (snd (snd tm))) ts) \<le> 1"
  proof (cases sv)
    case None
    with assms have "filter (\<lambda>tm. isv (snd (snd tm))) ts = []"
      by (auto simp: timers_wf_def filter_empty_conv)
    then show ?thesis by simp
  next
    case (Some h)
    with assms have "\<forall>x\<in>set (filter (\<lambda>tm. isv (snd (snd tm))) ts). fst x = h"
      by (auto simp: timers_wf_def)
    with d show ?thesis by (rule one)
  qed
  show "length (filter (\<lambda>tm. \<not> isv (snd (snd tm))) ts) \<le> 1"
  proof (cases st)
    case None
    with assms have "filter (\<lambda>tm. \<not> isv (snd (snd tm))) ts = []"
      by (auto simp: timers_wf_def filter_empty_conv)
    then show ?thesis by simp
  next
    case (Some h)
    with assms have "\<forall>x\<in>set (filter (\<lambda>tm. \<not> isv (snd (snd tm))) ts). fst x = h"
      by (auto simp: timers_wf_def)
    with d show ?thesis by (rule one)
  qed
qed

lemma l_inv_frame [simp]:
  "l_inv (s\<lparr>now := t\<rparr>) = l_inv s"
  "l_inv (s\<lparr>hidden := h\<rparr>) = l_inv s"
  "l_inv (s\<lparr>notepad_value := v\<rparr>) = l_inv s"
  by (simp_all add: l_inv_def)

lemma l_inv_handleInput: "l_inv s \<Longrightarrow> l_inv (handleInput s)"
  unfolding l_inv_def
  by (simp add: handleInput_eq timers_wf_add_save timers_wf_clear_status l_is_save_def)

lemma l_inv_saveNotes: "l_inv s \<Longrightarrow> l_inv (saveNotes s)"
proof (cases "probe_passes s")
  case False
  assume "l_inv s"
  with False show ?thesis
    unfolding l_inv_def by (simp add: saveNotes_unavailable timers_wf_clear_status)
next
  case True
  assume inv: "l_inv s"
  show ?thesis
  proof (cases "write_throws s")
    case None
    with True inv show ?thesis
      unfolding l_inv_def by (simp add: saveNotes_saved timers_wf_add_status l_is_save_def)
  next
    case (Some e)
    with True inv show ?thesis
      unfolding l_inv_def by (simp add: saveNotes_throws timers_wf_clear_status)
  qed
qed

lemma l_inv_loadNotes: "l_inv s \<Longrightarrow> l_inv (loadNotes s)"
  unfolding l_inv_def
  by (simp add: loadNotes_def getItem_try_def set_notepad_value_def probe_eq showError_def getItem_def updateSaveStatus_default
      timers_wf_clear_status split: option.splits bool.splits)

lemma l_inv_clearTimeout: "l_inv s \<Longrightarrow> l_inv (clearTimeout h s)"
  unfolding l_inv_def
  using timers_wf_cleared [of l_is_save "timers s" "nextId s" "saveTimeout s" "statusTimeout s"
      "Some h"]
  by (simp add: clearTimeout_def cleared_def)

lemma l_inv_callback: "l_inv s \<Longrightarrow> l_inv (l_callback cb s)"
  by (cases cb) (simp_all add: l_callback_def l_inv_saveNotes, simp add: l_inv_def statusReset_def)

lemma l_inv_fire: "l_inv s \<Longrightarrow> l_inv (l_fire tms s)"
  by (induction tms arbitrary: s) (simp_all add: l_inv_callback l_inv_clearTimeout)

lemma l_inv_tick: "l_inv s \<Longrightarrow> l_inv (l_tick s)"
  by (simp add: l_tick_def Let_def l_inv_fire)

lemma l_inv_elapse: "l_inv s \<Longrightarrow> l_inv (l_elapse n s)"
  by (induction n arbitrary: s) (simp_all add: l_inv_tick)

lemma l_inv_step: "l_inv s \<Longrightarrow> l_inv (l_step e s)"
proof (cases e)
  case (Input v)
  assume "l_inv s"
  with Input show ?thesis
    by (simp add: l_step_def Let_def l_inv_handleInput)
next
  case (StorageEvent k v)
  assume "l_inv s"
  with StorageEvent show ?thesis
    by (simp add: l_step_def handleStorageEvent_def set_notepad_value_def l_inv_def)
next
  case (VisibilityChange h)
  assume "l_inv s"
  with VisibilityChange show ?thesis
    by (simp add: l_step_def Let_def onVisibilityChange_def l_inv_saveNotes l_inv_clearTimeout
        split: option.splits)
next
  case BeforeUnload
  assume "l_inv s"
  with BeforeUnload show ?thesis
    by (simp add: l_step_def onBeforeUnload_def l_inv_saveNotes l_inv_clearTimeout
        split: option.splits)
next
  case ThemeToggle
  assume "l_inv s"
  with ThemeToggle show ?thesis
    by (simp add: l_step_def handleThemeToggle_def updateThemeUI_def setItem_def l_inv_def
        Let_def split: option.splits)
next
  case CloseError
  assume "l_inv s"
  with CloseError show ?thesis
    by (simp add: l_step_def hideError_def l_inv_def)
next
  case (Elapse n)
  assume "l_inv s"
  with Elapse show ?thesis
    by (simp add: l_step_def l_inv_elapse)
qed

lemma l_inv_debug: "l_inv s \<Longrightarrow> l_inv (l_debug d s)"
proof (cases d)
  case (DebugClear c)
  assume "l_inv s"
  with DebugClear show ?thesis
    by (simp add: l_debug_def clearNotes_def set_notepad_value_def l_inv_saveNotes)
qed (simp_all add: l_debug_def l_inv_saveNotes l_inv_loadNotes)

lemma l_inv_init:
  assumes "timers s = []" "saveTimeout s = None" "statusTimeout s = None"
  shows "l_inv (init s)"
proof -
  have "l_inv (initTheme s)"
    using assms by (simp add: l_inv_def timers_wf_def initTheme_def updateThemeUI_def Let_def)
  then have a: "l_inv ((initTheme s)\<lparr>storage := m, calls := c\<rparr>)" for m c
    by (simp add: l_inv_def)
  have b: "l_inv (x\<lparr>listening := True\<rparr>) = l_inv x" for x
    by (simp add: l_inv_def)
  have c: "l_inv (showError x) = l_inv x" for x
    by (simp add: l_inv_def showError_def)
  show ?thesis
    by (simp add: init_def Let_def probe_eq a b c l_inv_loadNotes split: bool.splits)
qed

lemma legacy_reachable_inv: "legacy_reachable s \<Longrightarrow> l_inv s"
  by (induction rule: legacy_reachable.induct)
     (simp_all add: l_inv_init l_inv_step l_inv_debug)

lemma r_inv_frame [simp]:
  "r_inv (s\<lparr>now := t\<rparr>) = r_inv s"
  "r_inv (s\<lparr>hidden := h\<rparr>) = r_inv s"
  "r_inv (s\<lparr>status := x\<rparr>) = r_inv s"
  "r_inv (s\<lparr>showErrorModal := y\<rparr>) = r_inv s"
  by (simp_all add: r_inv_def)

lemma r_inv_handleInput: "r_inv s \<Longrightarrow> r_inv (r_handleInput v s)"
  unfolding r_inv_def by (simp add: r_handleInput_eq timers_wf_add_save)

lemma r_inv_saveNotes: "r_inv s \<Longrightarrow> r_inv (r_saveNotes v s)"
proof (cases "probe_passes s")
  case False
  assume "r_inv s"
  with False show ?thesis
    unfolding r_inv_def by (simp add: r_saveNotes_unavailable)
next
  case True
  assume inv: "r_inv s"
  show ?thesis
  proof (cases "r_write_throws v s")
    case None
    with True inv show ?thesis
      unfolding r_inv_def by (simp add: r_saveNotes_saved timers_wf_add_status)
  next
    case (Some e)
    with True inv show ?thesis
      unfolding r_inv_def by (simp add: r_saveNotes_throws)
  qed
qed

lemma r_inv_clearTimeout: "r_inv s \<Longrightarrow> r_inv (clearTimeout h s)"
  unfolding r_inv_def
  using timers_wf_cleared [of r_is_save "timers s" "nextId s" "saveTimeoutRef s"
      "statusTimeoutRef s" "Some h"]
  by (simp add: clearTimeout_def cleared_def)

lemma r_inv_callback: "r_inv s \<Longrightarrow> r_inv (r_callback cb s)"
  by (cases cb) (simp_all add: r_callback_def r_inv_saveNotes)

lemma r_inv_fire: "r_inv s \<Longrightarrow> r_inv (r_fire tms s)"
  by (induction tms arbitrary: s) (simp_all add: r_inv_callback r_inv_clearTimeout)

lemma r_inv_tick: "r_inv s \<Longrightarrow> r_inv (r_tick s)"
  by (simp add: r_tick_def Let_def r_inv_fire)

lemma r_inv_elapse: "r_inv s \<Longrightarrow> r_inv (r_elapse n s)"
  by (induction n arbitrary: s) (simp_all add: r_inv_tick)

lemma r_inv_step: "r_inv s \<Longrightarrow> r_inv (r_step e s)"
proof (cases e)
  case (Input v)
  assume "r_inv s"
  with Input show ?thesis
    by (simp add: r_step_def r_inv_handleInput)
next
  case (StorageEvent k v)
  assume "r_inv s"
  with StorageEvent show ?thesis
    by (simp add: r_step_def handleStorage_def r_inv_def)
next
  case (VisibilityChange h)
  assume "r_inv s"
  with VisibilityChange show ?thesis
    by (simp add: r_step_def Let_def handleVisibilityChange_def r_inv_saveNotes
        r_inv_clearTimeout split: option.splits)
next
  case BeforeUnload
  assume "r_inv s"
  with BeforeUnload show ?thesis
    by (simp add: r_step_def handleBeforeUnload_def r_inv_saveNotes split: option.splits)
next
  case ThemeToggle
  assume "r_inv s"
  with ThemeToggle show ?thesis
    by (simp add: r_step_def toggleTheme_def updateThemeBody_def setItem_def r_inv_def
        Let_def split: option.splits)
next
  case CloseError
  assume "r_inv s"
  with CloseError show ?thesis
    by (simp add: r_step_def)
next
  case (Elapse n)
  assume "r_inv s"
  with Elapse show ?thesis
    by (simp add: r_step_def r_inv_elapse)
qed

lemma r_inv_mount:
  assumes "timers s = []" "saveTimeoutRef s = None" "statusTimeoutRef s = None"
  shows "r_inv (mount s)"
  using assms
  by (simp add: mount_def Let_def probe_eq r_inv_def timers_wf_def updateThemeBody_def
      getItem_def split: bool.splits option.splits)

lemma react_reachable_inv: "react_reachable s \<Longrightarrow> r_inv s"
  by (induction rule: react_reachable.induct) (simp_all add: r_inv_mount r_inv_step)

subsection \<open>What a millisecond does\<close>

lemma filter_handle_eq:
  assumes "distinct (map fst ts)" and "u \<in> set ts"
  shows "filter (\<lambda>t. fst t \<noteq> fst u) ts = filter (\<lambda>t. t \<noteq> u) ts"
proof (rule filter_cong [OF refl])
  fix t assume "t \<in> set ts"
  with assms have "fst t = fst u \<longleftrightarrow> t = u"
    by (auto simp: distinct_map inj_on_def)
  then show "(fst t \<noteq> fst u) = (t \<noteq> u)" by simp
qed

lemma l_fire_append: "l_fire (xs @ ys) s = l_fire ys (l_fire xs s)"
  by (induction xs arbitrary: s) simp_all

lemma r_fire_append: "r_fire (xs @ ys) s = r_fire ys (r_fire xs s)"
  by (induction xs arbitrary: s) simp_all

lemma l_fire_status:
  assumes "distinct (map fst (timers s))" and "set us \<subseteq> set (timers s)" and "distinct us"
    and "\<forall>u\<in>set us. snd (snd u) = LStatusReset"
  shows "l_fire us s =
     (if us = [] then s
      else s\<lparr>timers := filter (\<lambda>t. t \<notin> set us) (timers s),
             saveStatus_text := ''Auto-save on'',
             saveIndicator_classes := saveIndicator_classes s - {''saved''}\<rparr>)"
  using assms
proof (induction us arbitrary: s)
  case Nil
  then show ?case by simp
next
  case (Cons u us)
  let ?s = "statusReset (clearTimeout (fst u) s)"
  from Cons.prems have u: "u \<in> set (timers s)" and cb: "snd (snd u) = LStatusReset"
    by simp_all
  then have live: "is_live (fst u) s"
    by (auto simp: is_live_def)
  have ts: "timers ?s = filter (\<lambda>t. t \<noteq> u) (timers s)"
    using filter_handle_eq [OF Cons.prems(1) u] by (simp add: statusReset_def clearTimeout_def)
  have step: "l_fire (u # us) s = l_fire us ?s"
    using live cb by (simp add: l_callback_def)
  have "distinct (map fst (timers ?s))"
    using Cons.prems(1) by (simp add: ts distinct_map_filter)
  moreover have "set us \<subseteq> set (timers ?s)"
    using Cons.prems(2,3) by (auto simp: ts)
  moreover have "distinct us" and "\<forall>x\<in>set us. snd (snd x) = LStatusReset"
    using Cons.prems(3,4) by simp_all
  ultimately have ih: "l_fire us ?s =
     (if us = [] then ?s
      else ?s\<lparr>timers := filter (\<lambda>t. t \<notin> set us) (timers ?s),
             saveStatus_text := ''Auto-save on'',
             saveIndicator_classes := saveIndicator_classes ?s - {''saved''}\<rparr>)"
    by (rule Cons.IH)
  have f: "filter (\<lambda>t. t \<notin> set us) (filter (\<lambda>t. t \<noteq> u) (timers s))
      = filter (\<lambda>t. t \<notin> set (u # us)) (timers s)"
    by (auto intro: filter_cong)
  have es: "?s = s\<lparr>timers := filter (\<lambda>t. t \<noteq> u) (timers s),
      saveStatus_text := ''Auto-save on'',
      saveIndicator_classes := saveIndicator_classes s - {''saved''}\<rparr>"
    using filter_handle_eq [OF Cons.prems(1) u] by (simp add: statusReset_def clearTimeout_def)
  note step
  also note ih
  also have "(if us = [] then ?s
      else ?s\<lparr>timers := filter (\<lambda>t. t \<notin> set us) (timers ?s),
             saveStatus_text := ''Auto-save on'',
             saveIndicator_classes := saveIndicator_classes ?s - {''saved''}\<rparr>) =
     (if u # us = [] then s
      else s\<lparr>timers := filter (\<lambda>t. t \<notin> set (u # us)) (timers s),
             saveStatus_text := ''Auto-save on'',
             saveIndicator_classes := saveIndicator_classes s - {''saved''}\<rparr>)"
    unfolding es using f by simp
  finally show ?case .
qed

lemma r_fire_status:
  assumes "distinct (map fst (timers s))" and "set us \<subseteq> set (timers s)" and "distinct us"
    and "\<forall>u\<in>set us. snd (snd u) = RStatusReset"
  shows "r_fire us s =
     (if us = [] then s
      else s\<lparr>timers := filter (\<lambda>t. t \<notin> set us) (timers s), status := Default\<rparr>)"
  using assms
proof (induction us arbitrary: s)
  case Nil
  then show ?case by simp
next
  case (Cons u us)
  let ?s = "(clearTimeout (fst u) s)\<lparr>status := Default\<rparr>"
  from Cons.prems have u: "u \<in> set (timers s)" and cb: "snd (snd u) = RStatusReset"
    by simp_all
  then have live: "is_live (fst u) s"
    by (auto simp: is_live_def)
  have ts: "timers ?s = filter (\<lambda>t. t \<noteq> u) (timers s)"
    using filter_handle_eq [OF Cons.prems(1) u] by (simp add: clearTimeout_def)
  have step: "r_fire (u # us) s = r_fire us ?s"
    using live cb by (simp add: r_callback_def)
  have "distinct (map fst (timers ?s))"
    using Cons.prems(1) by (simp add: ts distinct_map_filter)
  moreover have "set us \<subseteq> set (timers ?s)"
    using Cons.prems(2,3) by (auto simp: ts)
  moreover have "distinct us" and "\<forall>x\<in>set us. snd (snd x) = RStatusReset"
    using Cons.prems(3,4) by simp_all
  ultimately have ih: "r_fire us ?s =
     (if us = [] then ?s
      else ?s\<lparr>timers := filter (\<lambda>t. t \<notin> set us) (timers ?s), status := Default\<rparr>)"
    by (rule Cons.IH)
  have f: "filter (\<lambda>t. t \<notin> set us) (filter (\<lambda>t. t \<noteq> u) (timers s))
      = filter (\<lambda>t. t \<notin> set (u # us)) (timers s)"
    by (auto intro: filter_cong)
  have es: "?s = s\<lparr>timers := filter (\<lambda>t. t \<noteq> u) (timers s), status := Default\<rparr>"
    using filter_handle_eq [OF Cons.prems(1) u] by (simp add: clearTimeout_def)
  note step
  also note ih
  also have "(if us = [] then ?s
      else ?s\<lparr>timers := filter (\<lambda>t. t \<notin> set us) (timers ?s), status := Default\<rparr>) =
     (if u # us = [] then s
      else s\<lparr>timers := filter (\<lambda>t. t \<notin> set (u # us)) (timers s), status := Default\<rparr>)"
    unfolding es using f by simp
  finally show ?case .
qed

lemma filter_fired:
  assumes "distinct (map fst (us @ ss))"
  shows "filter (\<lambda>t. t \<notin> set (filter P us)) (us @ ss) = filter (\<lambda>u. \<not> P u) us @ ss"
proof -
  have "set us \<inter> set ss = {}"
    using assms by (auto simp: distinct_map)
  then have "filter (\<lambda>t. t \<notin> set (filter P us)) ss = ss"
    by (auto simp: filter_id_conv)
  moreover have "filter (\<lambda>t. t \<notin> set (filter P us)) us = filter (\<lambda>u. \<not> P u) us"
    by (auto intro: filter_cong)
  ultimately show ?thesis by simp
qed

lemma l_tick_shape:
  assumes d: "distinct (map fst (timers s))" and sh: "timers s = us @ ss"
    and st: "\<forall>u\<in>set us. snd (snd u) = LStatusReset"
  shows "l_tick s = l_fire (filter (is_due (Suc (now s))) ss) (l_after_resets us ss s)"
proof -
  let ?t = "Suc (now s)"
  let ?s1 = "s\<lparr>now := ?t\<rparr>"
  let ?due = "filter (is_due ?t) us"
  have "distinct us"
    using d sh by (simp add: distinct_map)
  then have "l_fire ?due ?s1 =
     (if ?due = [] then ?s1
      else ?s1\<lparr>timers := filter (\<lambda>t. t \<notin> set ?due) (timers ?s1),
             saveStatus_text := ''Auto-save on'',
             saveIndicator_classes := saveIndicator_classes ?s1 - {''saved''}\<rparr>)"
    using d sh st by (intro l_fire_status) auto
  also have "\<dots> = l_after_resets us ss s"
    using filter_fired [of us ss "is_due ?t"] d sh
    by (auto simp: l_after_resets_def Let_def filter_empty_conv filter_id_conv)
  finally show ?thesis
    by (simp add: l_tick_def Let_def sh l_fire_append)
qed

lemma r_tick_shape:
  assumes d: "distinct (map fst (timers s))" and sh: "timers s = us @ ss"
    and st: "\<forall>u\<in>set us. snd (snd u) = RStatusReset"
  shows "r_tick s = r_fire (filter (is_due (Suc (now s))) ss) (r_after_resets us ss s)"
proof -
  let ?t = "Suc (now s)"
  let ?s1 = "s\<lparr>now := ?t\<rparr>"
  let ?due = "filter (is_due ?t) us"
  have "distinct us"
    using d sh by (simp add: distinct_map)
  then have "r_fire ?due ?s1 =
     (if ?due = [] then ?s1
      else ?s1\<lparr>timers := filter (\<lambda>t. t \<notin> set ?due) (timers ?s1), status := Default\<rparr>)"
    using d sh st by (intro r_fire_status) auto
  also have "\<dots> = r_after_resets us ss s"
    using filter_fired [of us ss "is_due ?t"] d sh
    by (auto simp: r_after_resets_def Let_def filter_empty_conv filter_id_conv)
  finally show ?thesis
    by (simp add: r_tick_def Let_def sh r_fire_append)
qed

lemma l_tick_resets:
  assumes "distinct (map fst (timers s))" and "\<forall>u\<in>set (timers s). snd (snd u) = LStatusReset"
  shows "l_tick s = l_after_resets (timers s) [] s"
  using l_tick_shape [of s "timers s" "[]"] assms by simp

lemma r_tick_resets:
  assumes "distinct (map fst (timers s))" and "\<forall>u\<in>set (timers s). snd (snd u) = RStatusReset"
  shows "r_tick s = r_after_resets (timers s) [] s"
  using r_tick_shape [of s "timers s" "[]"] assms by simp

lemma l_tick_pending:
  assumes "distinct (map fst (timers s))" and "timers s = us @ [(h, d, cb)]"
    and "\<forall>u\<in>set us. snd (snd u) = LStatusReset" and "Suc (now s) < d"
  shows "l_tick s = l_after_resets us [(h, d, cb)] s"
  using l_tick_shape [of s us "[(h, d, cb)]"] assms by (simp add: is_due_def)

lemma r_tick_pending:
  assumes "distinct (map fst (timers s))" and "timers s = us @ [(h, d, cb)]"
    and "\<forall>u\<in>set us. snd (snd u) = RStatusReset" and "Suc (now s) < d"
  shows "r_tick s = r_after_resets us [(h, d, cb)] s"
  using r_tick_shape [of s us "[(h, d, cb)]"] assms by (simp add: is_due_def)

lemma cleared_last:
  assumes "distinct (map fst (us @ [(h, d, cb)]))"
  shows "filter (\<lambda>t. fst t \<noteq> h) (filter P us @ [(h, d, cb)]) = filter P us"
proof -
  have "\<forall>u\<in>set us. fst u \<noteq> h"
    using assms by auto
  then have "filter (\<lambda>t. fst t \<noteq> h) (filter P us) = filter P us"
    by (auto intro: filter_cong)
  then show ?thesis by simp
qed

lemma l_tick_save:
  assumes "distinct (map fst (timers s))" and "timers s = us @ [(h, d, LSaveNotes)]"
    and "\<forall>u\<in>set us. snd (snd u) = LStatusReset" and "d \<le> Suc (now s)"
  shows "l_tick s = saveNotes (l_after_resets us [] s)"
proof -
  let ?x = "l_after_resets us [(h, d, LSaveNotes)] s"
  have tx: "timers ?x = filter (\<lambda>u. \<not> is_due (Suc (now s)) u) us @ [(h, d, LSaveNotes)]"
    by (simp add: l_after_resets_def Let_def)
  then have "is_live h ?x"
    by (simp add: is_live_def)
  moreover have "clearTimeout h ?x = l_after_resets us [] s"
    using cleared_last [of us h d LSaveNotes "\<lambda>u. \<not> is_due (Suc (now s)) u"] assms(1,2)
    by (simp add: clearTimeout_def l_after_resets_def Let_def)
  ultimately show ?thesis
    using l_tick_shape [of s us "[(h, d, LSaveNotes)]"] assms
    by (simp add: is_due_def l_callback_def)
qed

lemma r_tick_save:
  assumes "distinct (map fst (timers s))" and "timers s = us @ [(h, d, RSaveNotes v)]"
    and "\<forall>u\<in>set us. snd (snd u) = RStatusReset" and "d \<le> Suc (now s)"
  shows "r_tick s = r_saveNotes v (r_after_resets us [] s)"
proof -
  let ?x = "r_after_resets us [(h, d, RSaveNotes v)] s"
  have tx: "timers ?x = filter (\<lambda>u. \<not> is_due (Suc (now s)) u) us @ [(h, d, RSaveNotes v)]"
    by (simp add: r_after_resets_def Let_def)
  then have "is_live h ?x"
    by (simp add: is_live_def)
  moreover have "clearTimeout h ?x = r_after_resets us [] s"
    using cleared_last [of us h d "RSaveNotes v" "\<lambda>u. \<not> is_due (Suc (now s)) u"] assms(1,2)
    by (simp add: clearTimeout_def r_after_resets_def Let_def)
  ultimately show ?thesis
    using r_tick_shape [of s us "[(h, d, RSaveNotes v)]"] assms
    by (simp add: is_due_def r_callback_def)
qed

subsection \<open>A pending save through a burst and the quiet period\<close>

lemma same_store_refl [simp]: "same_store a a"
  by (simp add: same_store_def)

lemma same_store_trans: "same_store a b \<Longrightarrow> same_store b c \<Longrightarrow> same_store a c"
  by (simp add: same_store_def)

lemma same_store_probe:
  assumes "same_store a b"
  shows "probe_passes a = probe_passes b" and "probe_storage a = probe_storage b"
    and "probe_calls a = probe_calls b"
  using assms by (simp_all add: same_store_def probe_passes_def probe_storage_def probe_calls_def)

lemma timers_wf_cleared_all:
  assumes "timers_wf isv ts n sv st"
  shows "cleared sv (cleared st ts) = []"
  using assms by (fastforce simp: timers_wf_def cleared_def filter_empty_conv)

lemma l_input_pending:
  assumes "l_inv s" and "listening s"
  shows "l_pending v (now s + AUTOSAVE_DELAY) (l_step (Input v) s)"
    and "now (l_step (Input v) s) = now s"
    and "same_store (l_step (Input v) s) s"
    and "saveStatus_text (l_step (Input v) s) = ''Saving...''"
proof -
  have "cleared (saveTimeout s) (cleared (statusTimeout s) (timers s)) = []"
    using assms(1) unfolding l_inv_def by (rule timers_wf_cleared_all)
  then have ts: "timers (l_step (Input v) s) = [(nextId s, now s + AUTOSAVE_DELAY, LSaveNotes)]"
    using assms(2) by (simp add: l_step_def Let_def handleInput_eq)
  have "l_inv (l_step (Input v) s)"
    using assms(1) by (rule l_inv_step)
  moreover have "listening (l_step (Input v) s)" "notepad_value (l_step (Input v) s) = v"
    using assms(2) by (simp_all add: l_step_def Let_def handleInput_eq)
  ultimately show "l_pending v (now s + AUTOSAVE_DELAY) (l_step (Input v) s)"
    using ts by (simp add: l_pending_def)
  show "now (l_step (Input v) s) = now s" "same_store (l_step (Input v) s) s"
    "saveStatus_text (l_step (Input v) s) = ''Saving...''"
    using assms(2) by (simp_all add: l_step_def Let_def handleInput_eq same_store_def)
qed

lemma l_pending_tick:
  assumes "l_pending v d s" and "Suc (now s) < d"
  shows "l_tick s = s\<lparr>now := Suc (now s)\<rparr>"
proof -
  from assms(1) obtain h where ts: "timers s = [] @ [(h, d, LSaveNotes)]"
    by (auto simp: l_pending_def)
  have "distinct (map fst (timers s))"
    using ts by simp
  from l_tick_pending [OF this ts _ assms(2)] ts show ?thesis
    by (simp add: l_after_resets_def Let_def)
qed

lemma l_pending_now: "l_pending v d (s\<lparr>now := t\<rparr>) = l_pending v d s"
  by (simp add: l_pending_def)

lemma l_pending_elapse:
  assumes "l_pending v d s" and "now s + n < d"
  shows "l_elapse n s = s\<lparr>now := now s + n\<rparr>"
  using assms
proof (induction n arbitrary: s)
  case 0
  then show ?case by simp
next
  case (Suc n)
  then have t: "l_tick s = s\<lparr>now := Suc (now s)\<rparr>"
    by (intro l_pending_tick) auto
  have "l_elapse n (s\<lparr>now := Suc (now s)\<rparr>)
      = s\<lparr>now := Suc (now s)\<rparr>\<lparr>now := now (s\<lparr>now := Suc (now s)\<rparr>) + n\<rparr>"
    using Suc.prems by (intro Suc.IH) (simp_all add: l_pending_now)
  with t show ?case by simp
qed

lemma l_pending_burst:
  assumes "l_pending v (now s + AUTOSAVE_DELAY) s" and "\<forall>g\<in>set (map fst gs). g < AUTOSAVE_DELAY"
  shows "l_pending (last (v # map snd gs)) (now (l_run (burst gs) s) + AUTOSAVE_DELAY)
           (l_run (burst gs) s) \<and>
         same_store (l_run (burst gs) s) s"
  using assms
proof (induction gs arbitrary: v s)
  case Nil
  then show ?case by (simp add: burst_def)
next
  case (Cons gv gs)
  obtain g w where gv: "gv = (g, w)" by (cases gv)
  let ?s1 = "s\<lparr>now := now s + g\<rparr>"
  let ?s2 = "l_step (Input w) ?s1"
  from Cons.prems gv have g: "g < AUTOSAVE_DELAY" by simp
  then have e: "l_elapse g s = ?s1"
    using Cons.prems(1) by (intro l_pending_elapse) auto
  have p1: "l_pending v (now s + AUTOSAVE_DELAY) ?s1"
    using Cons.prems(1) by (simp add: l_pending_now)
  then have inv: "l_inv ?s1" and li: "listening ?s1"
    by (simp_all add: l_pending_def)
  have p2: "l_pending w (now ?s2 + AUTOSAVE_DELAY) ?s2"
    using l_input_pending(1,2) [OF inv li, of w] by simp
  have st: "same_store ?s2 s"
    using l_input_pending(3) [OF inv li, of w] by (simp add: same_store_def)
  have run: "l_run (burst (gv # gs)) s = l_run (burst gs) ?s2"
    by (simp add: burst_def gv l_step_def e)
  from Cons.prems(2) have "\<forall>g\<in>set (map fst gs). g < AUTOSAVE_DELAY"
    by simp
  with p2 have "l_pending (last (w # map snd gs)) (now (l_run (burst gs) ?s2) + AUTOSAVE_DELAY)
           (l_run (burst gs) ?s2) \<and> same_store (l_run (burst gs) ?s2) ?s2"
    by (rule Cons.IH)
  with st run gv show ?case
    by (auto intro: same_store_trans)
qed

lemma l_elapse_add: "l_elapse (m + n) s = l_elapse n (l_elapse m s)"
  by (induction m arbitrary: s) simp_all

lemma r_elapse_add: "r_elapse (m + n) s = r_elapse n (r_elapse m s)"
  by (induction m arbitrary: s) simp_all

lemma l_inv_distinct: "l_inv s \<Longrightarrow> distinct (map fst (timers s))"
  by (simp add: l_inv_def timers_wf_def)

lemma r_inv_distinct: "r_inv s \<Longrightarrow> distinct (map fst (timers s))"
  by (simp add: r_inv_def timers_wf_def)

lemma saveNotes_calls:
  "calls (saveNotes s) =
     calls s @ probe_calls s @
       (if probe_passes s then [SetItem STORAGE_KEY (notepad_value s)] else [])"
  by (cases "probe_passes s"; cases "write_throws s")
     (simp_all add: saveNotes_unavailable saveNotes_saved saveNotes_throws)

lemma saveNotes_storage:
  "storage (saveNotes s) =
     (if probe_passes s \<and> write_throws s = None
      then (probe_storage s)(STORAGE_KEY \<mapsto> notepad_value s) else probe_storage s)"
  by (cases "probe_passes s"; cases "write_throws s")
     (simp_all add: saveNotes_unavailable saveNotes_saved saveNotes_throws)

lemma saveNotes_policies:
  "setItemThrows (saveNotes s) = setItemThrows s"
  "removeItemThrows (saveNotes s) = removeItemThrows s"
  by (cases "probe_passes s"; cases "write_throws s";
      simp add: saveNotes_unavailable saveNotes_saved saveNotes_throws)+

lemma cleared_status: "\<forall>u\<in>set ts. P u \<Longrightarrow> \<forall>u\<in>set (cleared h ts). P u"
  by (simp add: cleared_def)

lemma saveNotes_quiet:
  assumes "l_quiet s"
  shows "l_quiet (saveNotes s)"
proof -
  have "l_inv (saveNotes s)"
    using assms by (simp add: l_quiet_def l_inv_saveNotes)
  moreover have "\<forall>u\<in>set (timers (saveNotes s)). snd (snd u) = LStatusReset"
    using assms unfolding l_quiet_def
    by (cases "probe_passes s"; cases "write_throws s")
       (simp_all add: saveNotes_unavailable saveNotes_saved saveNotes_throws cleared_def)
  ultimately show ?thesis
    by (simp add: l_quiet_def)
qed

lemma saveNotes_unavailable_text:
  "\<not> probe_passes s \<Longrightarrow> timers s = [] \<Longrightarrow>
   saveStatus_text (saveNotes s) = ''Error'' \<and> timers (saveNotes s) = []"
  by (simp add: saveNotes_unavailable cleared_def)

lemma l_quiet_tick:
  assumes "l_quiet s"
  shows "l_tick s = l_after_resets (timers s) [] s" and "l_quiet (l_tick s)"
proof -
  show eq: "l_tick s = l_after_resets (timers s) [] s"
    using assms by (intro l_tick_resets) (simp_all add: l_quiet_def l_inv_distinct)
  have "l_inv (l_tick s)"
    using assms by (simp add: l_quiet_def l_inv_tick)
  moreover have "\<forall>u\<in>set (timers (l_tick s)). snd (snd u) = LStatusReset"
    using assms by (simp add: eq l_after_resets_def Let_def l_quiet_def)
  ultimately show "l_quiet (l_tick s)"
    by (simp add: l_quiet_def)
qed

lemma l_quiet_elapse:
  assumes "l_quiet s"
  shows "l_quiet (l_elapse n s) \<and> same_store (l_elapse n s) s \<and>
         notepad_value (l_elapse n s) = notepad_value s"
  using assms
proof (induction n arbitrary: s)
  case 0
  then show ?case by simp
next
  case (Suc n)
  have "same_store (l_tick s) s" "notepad_value (l_tick s) = notepad_value s"
    using l_quiet_tick(1) [OF Suc.prems]
    by (simp_all add: l_after_resets_def Let_def same_store_def)
  with Suc.IH [OF l_quiet_tick(2) [OF Suc.prems]] show ?case
    by (auto intro: same_store_trans)
qed

lemma l_idle_elapse: "timers s = [] \<Longrightarrow> l_elapse n s = s\<lparr>now := now s + n\<rparr>"
proof (induction n arbitrary: s)
  case 0
  then show ?case by simp
next
  case (Suc n)
  then have "l_tick s = s\<lparr>now := Suc (now s)\<rparr>"
    by (simp add: l_tick_def)
  with Suc.IH [of "s\<lparr>now := Suc (now s)\<rparr>"] Suc.prems show ?case
    by simp
qed

lemma l_pending_fire:
  assumes p: "l_pending v d s" and lt: "now s < d" and le: "d \<le> now s + n"
  shows "l_elapse n s = l_elapse (now s + n - d) (saveNotes (s\<lparr>now := d, timers := []\<rparr>))"
proof -
  from p obtain h where ts: "timers s = [] @ [(h, d, LSaveNotes)]"
    by (auto simp: l_pending_def)
  let ?m = "d - now s - 1"
  let ?s1 = "s\<lparr>now := now s + ?m\<rparr>"
  have n: "n = ?m + (1 + (now s + n - d))"
    using lt le by simp
  have "now s + ?m < d"
    using lt by arith
  with p have e1: "l_elapse ?m s = ?s1"
    by (rule l_pending_elapse)
  have now1: "Suc (now ?s1) = d"
    using lt by simp
  have "l_tick ?s1 = saveNotes (l_after_resets [] [] ?s1)"
    using ts now1 by (intro l_tick_save [where h = h and d = d]) simp_all
  also have "l_after_resets [] [] ?s1 = s\<lparr>now := d, timers := []\<rparr>"
    using now1 by (simp add: l_after_resets_def Let_def)
  finally have e2: "l_tick ?s1 = saveNotes (s\<lparr>now := d, timers := []\<rparr>)" .
  have "l_elapse n s = l_elapse (1 + (now s + n - d)) (l_elapse ?m s)"
    by (subst n) (rule l_elapse_add)
  also have "\<dots> = l_elapse (now s + n - d) (l_tick ?s1)"
    unfolding e1 by simp
  finally show ?thesis
    unfolding e2 .
qed

lemma l_pending_quiet_period:
  assumes p: "l_pending v (now s + AUTOSAVE_DELAY) s" and q: "AUTOSAVE_DELAY \<le> q"
  shows "calls (l_elapse q s) =
           calls s @ probe_calls s @ (if probe_passes s then [SetItem STORAGE_KEY v] else [])"
    and "storage (l_elapse q s) =
           (if probe_passes s \<and> write_throws s = None
            then (probe_storage s)(STORAGE_KEY \<mapsto> v) else probe_storage s)"
    and "l_save_timers (l_elapse q s) = []"
    and "\<not> probe_passes s \<Longrightarrow> saveStatus_text (l_elapse q s) = ''Error''"
proof -
  let ?x = "s\<lparr>now := now s + AUTOSAVE_DELAY, timers := []\<rparr>"
  let ?m = "now s + q - (now s + AUTOSAVE_DELAY)"
  have d: "0 < AUTOSAVE_DELAY"
    by (simp add: AUTOSAVE_DELAY_def)
  have e: "l_elapse q s = l_elapse ?m (saveNotes ?x)"
    using p d q by (intro l_pending_fire) simp_all
  have v: "notepad_value s = v"
    using p by (simp add: l_pending_def)
  have "l_inv ?x"
    by (simp add: l_inv_def timers_wf_def)
  then have "l_quiet ?x"
    by (simp add: l_quiet_def)
  then have qx: "l_quiet (saveNotes ?x)"
    by (rule saveNotes_quiet)
  from l_quiet_elapse [OF qx, of ?m]
  have qe: "l_quiet (l_elapse q s)" and st: "same_store (l_elapse q s) (saveNotes ?x)"
    by (simp_all add: e)
  have px: "probe_passes ?x = probe_passes s" "probe_storage ?x = probe_storage s"
    "probe_calls ?x = probe_calls s" "write_throws ?x = write_throws s"
    by (simp_all add: probe_passes_def probe_storage_def probe_calls_def write_throws_def)
  show "calls (l_elapse q s) =
           calls s @ probe_calls s @ (if probe_passes s then [SetItem STORAGE_KEY v] else [])"
    using st by (simp add: same_store_def saveNotes_calls px v)
  show "storage (l_elapse q s) =
           (if probe_passes s \<and> write_throws s = None
            then (probe_storage s)(STORAGE_KEY \<mapsto> v) else probe_storage s)"
    using st by (simp add: same_store_def saveNotes_storage px v)
  show "l_save_timers (l_elapse q s) = []"
    using qe by (auto simp: l_quiet_def l_save_timers_def l_is_save_def filter_empty_conv)
  show "saveStatus_text (l_elapse q s) = ''Error''" if "\<not> probe_passes s"
  proof -
    from that have u: "saveStatus_text (saveNotes ?x) = ''Error''" "timers (saveNotes ?x) = []"
      using saveNotes_unavailable_text [of ?x] by (simp_all add: px)
    from l_idle_elapse [OF u(2), of ?m] u(1) show ?thesis
      by (simp add: e)
  qed
qed

lemma r_status_cb: "(\<not> r_is_save cb) = (cb = RStatusReset)"
  by (cases cb) simp_all

lemma timers_wf_subset:
  assumes "timers_wf isv ts n sv st" and "set ts' \<subseteq> set ts" and "distinct (map fst ts')"
  shows "timers_wf isv ts' n sv st"
  using assms unfolding timers_wf_def by blast

lemma r_saveNotes_calls:
  "calls (r_saveNotes v s) =
     calls s @ probe_calls s @ (if probe_passes s then [SetItem STORAGE_KEY v] else [])"
  by (cases "probe_passes s"; cases "r_write_throws v s")
     (simp_all add: r_saveNotes_unavailable r_saveNotes_saved r_saveNotes_throws)

lemma r_saveNotes_storage:
  "storage (r_saveNotes v s) =
     (if probe_passes s \<and> r_write_throws v s = None
      then (probe_storage s)(STORAGE_KEY \<mapsto> v) else probe_storage s)"
  by (cases "probe_passes s"; cases "r_write_throws v s")
     (simp_all add: r_saveNotes_unavailable r_saveNotes_saved r_saveNotes_throws)

lemma r_saveNotes_policies:
  "setItemThrows (r_saveNotes v s) = setItemThrows s"
  "removeItemThrows (r_saveNotes v s) = removeItemThrows s"
  by (cases "probe_passes s"; cases "r_write_throws v s";
      simp add: r_saveNotes_unavailable r_saveNotes_saved r_saveNotes_throws)+

lemma r_saveNotes_quiet:
  assumes "r_quiet s"
  shows "r_quiet (r_saveNotes v s)"
proof -
  have "r_inv (r_saveNotes v s)"
    using assms by (simp add: r_quiet_def r_inv_saveNotes)
  moreover have "\<forall>u\<in>set (timers (r_saveNotes v s)). snd (snd u) = RStatusReset"
    using assms unfolding r_quiet_def
    by (cases "probe_passes s"; cases "r_write_throws v s")
       (simp_all add: r_saveNotes_unavailable r_saveNotes_saved r_saveNotes_throws cleared_def)
  ultimately show ?thesis
    by (simp add: r_quiet_def)
qed

lemma r_quiet_tick:
  assumes "r_quiet s"
  shows "r_tick s = r_after_resets (timers s) [] s" and "r_quiet (r_tick s)"
proof -
  show eq: "r_tick s = r_after_resets (timers s) [] s"
    using assms by (intro r_tick_resets) (simp_all add: r_quiet_def r_inv_distinct)
  have "r_inv (r_tick s)"
    using assms by (simp add: r_quiet_def r_inv_tick)
  moreover have "\<forall>u\<in>set (timers (r_tick s)). snd (snd u) = RStatusReset"
    using assms by (simp add: eq r_after_resets_def Let_def r_quiet_def)
  ultimately show "r_quiet (r_tick s)"
    by (simp add: r_quiet_def)
qed

lemma r_quiet_elapse:
  assumes "r_quiet s"
  shows "r_quiet (r_elapse n s) \<and> same_store (r_elapse n s) s \<and>
         content (r_elapse n s) = content s"
  using assms
proof (induction n arbitrary: s)
  case 0
  then show ?case by simp
next
  case (Suc n)
  have "same_store (r_tick s) s" "content (r_tick s) = content s"
    using r_quiet_tick(1) [OF Suc.prems]
    by (simp_all add: r_after_resets_def Let_def same_store_def)
  with Suc.IH [OF r_quiet_tick(2) [OF Suc.prems]] show ?case
    by (auto intro: same_store_trans)
qed

lemma r_input_pending:
  assumes "r_inv s" and "isLoaded s"
  shows "r_pending v (now s + AUTOSAVE_DELAY) (r_step (Input v) s)"
    and "now (r_step (Input v) s) = now s"
    and "same_store (r_step (Input v) s) s"
    and "status (r_step (Input v) s) = Saving"
proof -
  let ?us = "cleared (saveTimeoutRef s) (timers s)"
  have "\<forall>u\<in>set ?us. snd (snd u) = RStatusReset"
    using assms(1) by (auto simp: r_inv_def timers_wf_def cleared_def r_status_cb [symmetric])
  moreover have "timers (r_step (Input v) s)
      = ?us @ [(nextId s, now s + AUTOSAVE_DELAY, RSaveNotes v)]"
    using assms(2) by (simp add: r_step_def r_handleInput_eq)
  moreover have "r_inv (r_step (Input v) s)"
    using assms(1) by (rule r_inv_step)
  moreover have "isLoaded (r_step (Input v) s)" "content (r_step (Input v) s) = v"
    using assms(2) by (simp_all add: r_step_def r_handleInput_eq)
  ultimately show "r_pending v (now s + AUTOSAVE_DELAY) (r_step (Input v) s)"
    unfolding r_pending_def by blast
  show "now (r_step (Input v) s) = now s" "same_store (r_step (Input v) s) s"
    "status (r_step (Input v) s) = Saving"
    using assms(2) by (simp_all add: r_step_def r_handleInput_eq same_store_def)
qed

lemma r_pending_tick:
  assumes "r_pending v d s" and "Suc (now s) < d"
  shows "r_pending v d (r_tick s)" and "same_store (r_tick s) s"
    and "now (r_tick s) = Suc (now s)"
proof -
  from assms(1) obtain us h where ts: "timers s = us @ [(h, d, RSaveNotes v)]"
    and us: "\<forall>u\<in>set us. snd (snd u) = RStatusReset" and inv: "r_inv s"
    and ld: "isLoaded s" and c: "content s = v"
    by (auto simp: r_pending_def)
  have eq: "r_tick s = r_after_resets us [(h, d, RSaveNotes v)] s"
    using r_inv_distinct [OF inv] ts us assms(2) by (rule r_tick_pending)
  have "r_inv (r_tick s)"
    using inv by (rule r_inv_tick)
  moreover have "timers (r_tick s)
      = filter (\<lambda>u. \<not> is_due (Suc (now s)) u) us @ [(h, d, RSaveNotes v)]"
    by (simp add: eq r_after_resets_def Let_def)
  moreover have "\<forall>u\<in>set (filter (\<lambda>u. \<not> is_due (Suc (now s)) u) us). snd (snd u) = RStatusReset"
    using us by simp
  moreover have "isLoaded (r_tick s)" "content (r_tick s) = v"
    using ld c by (simp_all add: eq r_after_resets_def Let_def)
  ultimately show "r_pending v d (r_tick s)"
    unfolding r_pending_def by blast
  show "same_store (r_tick s) s" "now (r_tick s) = Suc (now s)"
    by (simp_all add: eq r_after_resets_def Let_def same_store_def)
qed

lemma r_pending_elapse:
  assumes "r_pending v d s" and "now s + n < d"
  shows "r_pending v d (r_elapse n s) \<and> same_store (r_elapse n s) s \<and>
         now (r_elapse n s) = now s + n"
  using assms
proof (induction n arbitrary: s)
  case 0
  then show ?case by simp
next
  case (Suc n)
  from Suc.prems have lt: "Suc (now s) < d" by simp
  note t = r_pending_tick [OF Suc.prems(1) lt]
  from Suc.prems(2) t(3) have "now (r_tick s) + n < d" by simp
  from Suc.IH [OF t(1) this] t(2,3) show ?case
    by (auto intro: same_store_trans)
qed

lemma r_pending_burst:
  assumes "r_pending v (now s + AUTOSAVE_DELAY) s" and "\<forall>g\<in>set (map fst gs). g < AUTOSAVE_DELAY"
  shows "r_pending (last (v # map snd gs)) (now (r_run (burst gs) s) + AUTOSAVE_DELAY)
           (r_run (burst gs) s) \<and>
         same_store (r_run (burst gs) s) s"
  using assms
proof (induction gs arbitrary: v s)
  case Nil
  then show ?case by (simp add: burst_def)
next
  case (Cons gv gs)
  obtain g w where gv: "gv = (g, w)" by (cases gv)
  let ?s1 = "r_elapse g s"
  let ?s2 = "r_step (Input w) ?s1"
  from Cons.prems gv have g: "now s + g < now s + AUTOSAVE_DELAY" by simp
  note e = r_pending_elapse [OF Cons.prems(1) g]
  from e have inv: "r_inv ?s1" and li: "isLoaded ?s1"
    by (simp_all add: r_pending_def)
  have p2: "r_pending w (now ?s2 + AUTOSAVE_DELAY) ?s2"
    using r_input_pending(1,2) [OF inv li, of w] by simp
  have st: "same_store ?s2 s"
    using r_input_pending(3) [OF inv li, of w] e by (auto intro: same_store_trans)
  have run: "r_run (burst (gv # gs)) s = r_run (burst gs) ?s2"
    by (simp add: burst_def gv r_step_def)
  from Cons.prems(2) have "\<forall>g\<in>set (map fst gs). g < AUTOSAVE_DELAY"
    by simp
  with p2 have "r_pending (last (w # map snd gs)) (now (r_run (burst gs) ?s2) + AUTOSAVE_DELAY)
           (r_run (burst gs) ?s2) \<and> same_store (r_run (burst gs) ?s2) ?s2"
    by (rule Cons.IH)
  with st run gv show ?case
    by (auto intro: same_store_trans)
qed

lemma r_pending_fire:
  assumes p: "r_pending v d s" and lt: "now s < d" and le: "d \<le> now s + n"
  shows "\<exists>x. r_quiet x \<and> same_store x s \<and>
           r_elapse n s = r_elapse (now s + n - d) (r_saveNotes v x)"
proof -
  define m where "m = d - now s - 1"
  define s1 where "s1 = r_elapse m s"
  have n: "n = m + (1 + (now s + n - d))"
    using lt le by (simp add: m_def)
  have "now s + m < d"
    using lt by (simp add: m_def)
  with p have p1: "r_pending v d s1" and st1: "same_store s1 s"
    and now1: "now s1 = now s + m"
    unfolding s1_def using r_pending_elapse by blast+
  from p1 obtain us h where ts: "timers s1 = us @ [(h, d, RSaveNotes v)]"
    and us: "\<forall>u\<in>set us. snd (snd u) = RStatusReset" and inv: "r_inv s1"
    by (auto simp: r_pending_def)
  define x where "x = r_after_resets us [] s1"
  have due: "d \<le> Suc (now s1)"
    using now1 lt by (simp add: m_def)
  have e2: "r_tick s1 = r_saveNotes v x"
    unfolding x_def using r_inv_distinct [OF inv] ts us due by (rule r_tick_save)
  have tx: "timers x = filter (\<lambda>u. \<not> is_due (Suc (now s1)) u) us"
    by (simp add: x_def r_after_resets_def Let_def)
  have "timers_wf r_is_save (timers x) (nextId s1) (saveTimeoutRef s1) (statusTimeoutRef s1)"
  proof (rule timers_wf_subset)
    show "timers_wf r_is_save (timers s1) (nextId s1) (saveTimeoutRef s1) (statusTimeoutRef s1)"
      using inv by (simp add: r_inv_def)
    show "set (timers x) \<subseteq> set (timers s1)"
      by (auto simp: tx ts)
    show "distinct (map fst (timers x))"
      using r_inv_distinct [OF inv] by (simp add: tx ts distinct_map_filter)
  qed
  then have "r_inv x"
    by (simp add: r_inv_def x_def r_after_resets_def Let_def)
  then have qx: "r_quiet x"
    using us by (simp add: r_quiet_def tx)
  have sx: "same_store x s"
    using st1 by (simp add: same_store_def x_def r_after_resets_def Let_def)
  have "r_elapse n s = r_elapse (1 + (now s + n - d)) s1"
    unfolding s1_def by (subst n) (rule r_elapse_add)
  also have "\<dots> = r_elapse (now s + n - d) (r_tick s1)"
    by simp
  finally have "r_elapse n s = r_elapse (now s + n - d) (r_saveNotes v x)"
    unfolding e2 .
  with qx sx show ?thesis
    by blast
qed

lemma r_pending_quiet_period:
  assumes p: "r_pending v (now s + AUTOSAVE_DELAY) s" and q: "AUTOSAVE_DELAY \<le> q"
  shows "calls (r_elapse q s) =
           calls s @ probe_calls s @ (if probe_passes s then [SetItem STORAGE_KEY v] else [])"
    and "storage (r_elapse q s) =
           (if probe_passes s \<and> r_write_throws v s = None
            then (probe_storage s)(STORAGE_KEY \<mapsto> v) else probe_storage s)"
    and "r_save_timers (r_elapse q s) = []"
proof -
  have d: "now s < now s + AUTOSAVE_DELAY"
    by (simp add: AUTOSAVE_DELAY_def)
  have le: "now s + AUTOSAVE_DELAY \<le> now s + q"
    using q by simp
  from r_pending_fire [OF p d le] obtain x m where qx: "r_quiet x" and sx: "same_store x s"
    and e: "r_elapse q s = r_elapse m (r_saveNotes v x)"
    by blast
  from r_quiet_elapse [OF r_saveNotes_quiet [OF qx], of m v]
  have qe: "r_quiet (r_elapse q s)" and st: "same_store (r_elapse q s) (r_saveNotes v x)"
    by (simp_all add: e)
  have px: "probe_passes x = probe_passes s" "probe_storage x = probe_storage s"
    "probe_calls x = probe_calls s" "r_write_throws v x = r_write_throws v s"
    "calls x = calls s"
    using sx by (simp_all add: same_store_def probe_passes_def probe_storage_def
        probe_calls_def r_write_throws_def)
  show "calls (r_elapse q s) =
           calls s @ probe_calls s @ (if probe_passes s then [SetItem STORAGE_KEY v] else [])"
    using st by (simp add: same_store_def r_saveNotes_calls px)
  show "storage (r_elapse q s) =
           (if probe_passes s \<and> r_write_throws v s = None
            then (probe_storage s)(STORAGE_KEY \<mapsto> v) else probe_storage s)"
    using st by (simp add: same_store_def r_saveNotes_storage px)
  show "r_save_timers (r_elapse q s) = []"
    using qe by (auto simp: r_quiet_def r_save_timers_def filter_empty_conv)
qed

subsection \<open>Runs and the writes of the note content\<close>

lemma l_run_append: "l_run (xs @ ys) s = l_run ys (l_run xs s)"
  by (induction xs arbitrary: s) simp_all

lemma r_run_append: "r_run (xs @ ys) s = r_run ys (r_run xs s)"
  by (induction xs arbitrary: s) simp_all

lemma notes_writes_append: "notes_writes (xs @ ys) = notes_writes xs @ notes_writes ys"
  by (simp add: notes_writes_def List.map_filter_def)

lemma notes_writes_probe: "notes_writes (probe_calls b) = []"
  by (simp add: notes_writes_def probe_calls_def List.map_filter_def testKey_def
      STORAGE_KEY_def)

lemma notes_writes_Nil [simp]: "notes_writes [] = []"
  by (simp add: notes_writes_def List.map_filter_def)

lemma notes_writes_set: "notes_writes [SetItem STORAGE_KEY v] = [v]"
  by (simp add: notes_writes_def List.map_filter_def)

lemma probe_storage_notes: "probe_storage b STORAGE_KEY = storage b STORAGE_KEY"
  by (simp add: probe_storage_def testKey_def STORAGE_KEY_def)

lemma r_saveNotes_loaded: "isLoaded (r_saveNotes v y) = isLoaded y"
  by (cases "probe_passes y"; cases "r_write_throws v y")
     (simp_all add: r_saveNotes_unavailable r_saveNotes_saved r_saveNotes_throws)

lemma r_fire_loaded: "isLoaded (r_fire tms x) = isLoaded x"
proof (induction tms arbitrary: x)
  case Nil
  show ?case by simp
next
  case (Cons tm tms)
  have "isLoaded (r_callback cb y) = isLoaded y" for cb y
    by (cases cb) (simp_all add: r_callback_def r_saveNotes_loaded)
  then show ?case
    by (simp add: Cons.IH clearTimeout_def)
qed

lemma r_elapse_loaded: "isLoaded (r_elapse n x) = isLoaded x"
  by (induction n arbitrary: x) (simp_all add: r_tick_def Let_def r_fire_loaded)

lemma r_step_loaded: "isLoaded s \<Longrightarrow> isLoaded (r_step e s)"
  by (cases e)
     (simp_all add: r_step_def r_handleInput_eq handleStorage_def handleVisibilityChange_def
        handleBeforeUnload_def toggleTheme_def updateThemeBody_def setItem_def Let_def
        r_saveNotes_loaded r_elapse_loaded clearTimeout_def split: option.splits)

lemma react_reachable_loaded: "react_reachable s \<Longrightarrow> isLoaded s"
  by (induction rule: react_reachable.induct) (simp_all add: mount_def Let_def r_step_loaded)

lemma l_burst_run:
  assumes gaps: "\<forall>g\<in>set (map fst gs). g < AUTOSAVE_DELAY" and quiet: "AUTOSAVE_DELAY \<le> q"
    and inv: "l_inv l" and li: "listening l"
  shows "notes_writes (calls (l_run (Input v # burst gs @ [Elapse q]) l)) =
          notes_writes (calls l) @ (if probe_passes l then [last (v # map snd gs)] else [])"
    and "probe_passes l \<and>
         setItemThrows l (probe_storage l) STORAGE_KEY (last (v # map snd gs)) = None \<Longrightarrow>
           storage (l_run (Input v # burst gs @ [Elapse q]) l) STORAGE_KEY =
             Some (last (v # map snd gs))"
    and "l_save_timers (l_run (Input v # burst gs @ [Elapse q]) l) = []"
    and "saveStatus_text (l_step (Input v) l) = ''Saving...''"
    and "l_save_timers (l_step (Input v) l) = [(nextId l, now l + AUTOSAVE_DELAY, LSaveNotes)]"
    and "\<not> probe_passes l \<Longrightarrow>
           saveStatus_text (l_run (Input v # burst gs @ [Elapse q]) l) = ''Error''"
proof -
  let ?w = "last (v # map snd gs)"
  let ?s1 = "l_step (Input v) l"
  let ?s2 = "l_run (burst gs) ?s1"
  let ?s3 = "l_run (Input v # burst gs @ [Elapse q]) l"
  note i = l_input_pending [OF inv li, of v]
  from i(1,2) have p1: "l_pending v (now ?s1 + AUTOSAVE_DELAY) ?s1"
    by simp
  from l_pending_burst [OF p1 gaps]
  have p2: "l_pending ?w (now ?s2 + AUTOSAVE_DELAY) ?s2" and st2: "same_store ?s2 ?s1"
    by simp_all
  have st: "same_store ?s2 l"
    using st2 i(3) by (rule same_store_trans)
  have run: "?s3 = l_elapse q ?s2"
    by (simp add: l_run_append l_step_def)
  note f = l_pending_quiet_period [OF p2 quiet]
  have w: "notepad_value ?s2 = ?w"
    using p2 by (simp add: l_pending_def)
  note same_store_probe [OF st]
  then have px: "probe_passes ?s2 = probe_passes l" "probe_storage ?s2 = probe_storage l"
    "probe_calls ?s2 = probe_calls l"
    "write_throws ?s2 = setItemThrows l (probe_storage l) STORAGE_KEY ?w"
    "calls ?s2 = calls l"
    using st unfolding write_throws_def w same_store_def by simp_all
  show "notes_writes (calls ?s3) =
          notes_writes (calls l) @ (if probe_passes l then [?w] else [])"
    unfolding run f(1) px
    by (simp add: notes_writes_append notes_writes_probe notes_writes_set)
  show "storage ?s3 STORAGE_KEY = Some ?w"
    if "probe_passes l \<and> setItemThrows l (probe_storage l) STORAGE_KEY ?w = None"
    using that unfolding run f(2) px by simp
  show "l_save_timers ?s3 = []"
    unfolding run by (rule f(3))
  show "saveStatus_text ?s1 = ''Saving...''"
    by (rule i(4))
  from i(1) obtain h where "timers ?s1 = [(h, now l + AUTOSAVE_DELAY, LSaveNotes)]"
    by (auto simp: l_pending_def)
  moreover have "nextId l \<in> fst ` set (timers ?s1)"
    using li by (simp add: l_step_def Let_def handleInput_eq)
  ultimately show "l_save_timers ?s1 = [(nextId l, now l + AUTOSAVE_DELAY, LSaveNotes)]"
    by (simp add: l_save_timers_def l_is_save_def)
  show "saveStatus_text ?s3 = ''Error''" if "\<not> probe_passes l"
    using that f(4) unfolding run px by simp
qed

lemma r_burst_run:
  assumes gaps: "\<forall>g\<in>set (map fst gs). g < AUTOSAVE_DELAY" and quiet: "AUTOSAVE_DELAY \<le> q"
    and inv: "r_inv r" and li: "isLoaded r"
  shows "notes_writes (calls (r_run (Input v # burst gs @ [Elapse q]) r)) =
          notes_writes (calls r) @ (if probe_passes r then [last (v # map snd gs)] else [])"
    and "probe_passes r \<and>
         setItemThrows r (probe_storage r) STORAGE_KEY (last (v # map snd gs)) = None \<Longrightarrow>
           storage (r_run (Input v # burst gs @ [Elapse q]) r) STORAGE_KEY =
             Some (last (v # map snd gs))"
    and "r_save_timers (r_run (Input v # burst gs @ [Elapse q]) r) = []"
    and "status (r_step (Input v) r) = Saving"
    and "r_save_timers (r_step (Input v) r) = [(nextId r, now r + AUTOSAVE_DELAY, RSaveNotes v)]"
proof -
  let ?w = "last (v # map snd gs)"
  let ?s1 = "r_step (Input v) r"
  let ?s2 = "r_run (burst gs) ?s1"
  let ?s3 = "r_run (Input v # burst gs @ [Elapse q]) r"
  note i = r_input_pending [OF inv li, of v]
  from i(1,2) have p1: "r_pending v (now ?s1 + AUTOSAVE_DELAY) ?s1"
    by simp
  from r_pending_burst [OF p1 gaps]
  have p2: "r_pending ?w (now ?s2 + AUTOSAVE_DELAY) ?s2" and st2: "same_store ?s2 ?s1"
    by simp_all
  have st: "same_store ?s2 r"
    using st2 i(3) by (rule same_store_trans)
  have run: "?s3 = r_elapse q ?s2"
    by (simp add: r_run_append r_step_def)
  note f = r_pending_quiet_period [OF p2 quiet]
  note same_store_probe [OF st]
  then have px: "probe_passes ?s2 = probe_passes r" "probe_storage ?s2 = probe_storage r"
    "probe_calls ?s2 = probe_calls r"
    "r_write_throws ?w ?s2 = setItemThrows r (probe_storage r) STORAGE_KEY ?w"
    "calls ?s2 = calls r"
    using st unfolding r_write_throws_def same_store_def by simp_all
  show "notes_writes (calls ?s3) =
          notes_writes (calls r) @ (if probe_passes r then [?w] else [])"
    unfolding run f(1) px
    by (simp add: notes_writes_append notes_writes_probe notes_writes_set)
  show "storage ?s3 STORAGE_KEY = Some ?w"
    if "probe_passes r \<and> setItemThrows r (probe_storage r) STORAGE_KEY ?w = None"
    using that unfolding run f(2) px by simp
  show "r_save_timers ?s3 = []"
    unfolding run by (rule f(3))
  show "status ?s1 = Saving"
    by (rule i(4))
  from i(1) obtain us h where ts: "timers ?s1 = us @ [(h, now r + AUTOSAVE_DELAY, RSaveNotes v)]"
    and us: "\<forall>u\<in>set us. snd (snd u) = RStatusReset"
    by (auto simp: r_pending_def)
  have "timers ?s1 = cleared (saveTimeoutRef r) (timers r)
      @ [(nextId r, now r + AUTOSAVE_DELAY, RSaveNotes v)]"
    using li by (simp add: r_step_def r_handleInput_eq)
  with ts have "h = nextId r"
    by simp
  with ts us show "r_save_timers ?s1 = [(nextId r, now r + AUTOSAVE_DELAY, RSaveNotes v)]"
    by (auto simp: r_save_timers_def filter_empty_conv)
qed

subsection \<open>The example pages\<close>

lemma legacy_ok_eq:
  "legacy_ok = (legacy_start Map.empty never_set never_remove)
     \<lparr>calls := [SetItem testKey ''test'', RemoveItem testKey,
                SetItem testKey ''test'', RemoveItem testKey],
      listening := True\<rparr>"
  by (simp add: legacy_ok_def init_def Let_def probe_eq probe_passes_def probe_storage_def
      probe_calls_def initTheme_def updateThemeUI_def getItem_def legacy_start_def never_set_def
      never_remove_def loadNotes_def getItem_try_def set_notepad_value_def
      updateSaveStatus_default cleared_def status_classes_def)

lemma react_ok_eq:
  "react_ok = (react_start Map.empty never_set never_remove)
     \<lparr>calls := [SetItem testKey ''test'', RemoveItem testKey], isLoaded := True\<rparr>"
  by (simp add: react_ok_def mount_def Let_def probe_eq probe_passes_def probe_storage_def
      probe_calls_def updateThemeBody_def getItem_def react_start_def never_set_def
      never_remove_def)

lemma react_blocked_eq:
  "react_blocked = (react_start Map.empty (always_set (Exn ''SecurityError'')) never_remove)
     \<lparr>calls := [SetItem testKey ''test''], showErrorModal := True, isLoaded := True\<rparr>"
  by (simp add: react_blocked_def mount_def Let_def probe_eq probe_passes_def probe_storage_def
      probe_calls_def updateThemeBody_def getItem_def react_start_def always_set_def)

lemma legacy_ok_reachable: "legacy_reachable legacy_ok"
  unfolding legacy_ok_def by (rule l_start) (simp_all add: legacy_start_def)

lemma react_ok_reachable: "react_reachable react_ok"
  unfolding react_ok_def by (rule r_start) (simp_all add: react_start_def)

lemma l_wait:
  assumes "\<forall>tm\<in>set (timers s). now s + n < fst (snd tm)"
  shows "l_elapse n s = s\<lparr>now := now s + n\<rparr>"
  using assms
proof (induction n arbitrary: s)
  case 0
  then show ?case by simp
next
  case (Suc n)
  then have "filter (is_due (Suc (now s))) (timers s) = []"
    by (auto simp: filter_empty_conv is_due_def)
  then have "l_tick s = s\<lparr>now := Suc (now s)\<rparr>"
    by (simp add: l_tick_def Let_def)
  with Suc.IH [of "s\<lparr>now := Suc (now s)\<rparr>"] Suc.prems show ?case
    by simp
qed

lemma r_wait:
  assumes "\<forall>tm\<in>set (timers s). now s + n < fst (snd tm)"
  shows "r_elapse n s = s\<lparr>now := now s + n\<rparr>"
  using assms
proof (induction n arbitrary: s)
  case 0
  then show ?case by simp
next
  case (Suc n)
  then have "filter (is_due (Suc (now s))) (timers s) = []"
    by (auto simp: filter_empty_conv is_due_def)
  then have "r_tick s = s\<lparr>now := Suc (now s)\<rparr>"
    by (simp add: r_tick_def Let_def)
  with Suc.IH [of "s\<lparr>now := Suc (now s)\<rparr>"] Suc.prems show ?case
    by simp
qed

lemma l_wait_tick:
  assumes "\<forall>tm\<in>set (timers s). now s + n < fst (snd tm)"
  shows "l_elapse (Suc n) s = l_tick (s\<lparr>now := now s + n\<rparr>)"
  using l_elapse_add [of n 1 s] l_wait [OF assms] by simp

lemma r_wait_tick:
  assumes "\<forall>tm\<in>set (timers s). now s + n < fst (snd tm)"
  shows "r_elapse (Suc n) s = r_tick (s\<lparr>now := now s + n\<rparr>)"
  using r_elapse_add [of n 1 s] r_wait [OF assms] by simp

text \<open>The equations by which a step of the component and of the script is computed on a given state.\<close>

lemmas react_eval = r_step_def r_handleInput_eq r_tick_def Let_def is_due_def is_live_def
  handleStorage_def handleVisibilityChange_def handleBeforeUnload_def or_empty_def
  r_callback_def clearTimeout_def r_saveNotes_saved r_saveNotes_unavailable r_saveNotes_throws
  probe_passes_def probe_storage_def probe_calls_def r_write_throws_def cleared_def
  react_start_def never_set_def never_remove_def always_set_def sentinel_only_def
  AUTOSAVE_DELAY_def SAVE_STATUS_DISPLAY_DURATION_def

lemmas legacy_eval = l_step_def handleInput_eq l_tick_def Let_def is_due_def is_live_def
  handleStorageEvent_def set_notepad_value_def onVisibilityChange_def onBeforeUnload_def
  or_empty_def
  l_callback_def clearTimeout_def saveNotes_saved saveNotes_unavailable saveNotes_throws
  statusReset_def probe_passes_def probe_storage_def probe_calls_def write_throws_def cleared_def
  status_classes_def legacy_start_def never_set_def never_remove_def always_set_def
  sentinel_only_def AUTOSAVE_DELAY_def SAVE_STATUS_DISPLAY_DURATION_def

subsection \<open>The script and the component step together\<close>



















lemma legacy_status_frame [simp]:
  "legacy_status (l\<lparr>hidden := h\<rparr>) = legacy_status l"
  "legacy_status (l\<lparr>errorModal_display := x\<rparr>) = legacy_status l"
  by (simp_all add: legacy_status_def)









subsection \<open>Two saves in a row on the example pages\<close>

lemma react_ok_two_saves:
  "r_run [Input ''a'', Elapse 500, Elapse 1900, Input ''b'', Elapse 100] react_ok =
     react_ok\<lparr>storage := [STORAGE_KEY \<mapsto> ''a''],
       calls := [SetItem testKey ''test'', RemoveItem testKey,
                 SetItem testKey ''test'', RemoveItem testKey, SetItem STORAGE_KEY ''a''],
       now := 2500, timers := [(3, 2900, RSaveNotes ''b'')], nextId := 4, content := ''b'',
       status := Default, saveTimeoutRef := Some 3, statusTimeoutRef := Some 2\<rparr>"
proof -
  let ?s1 = "react_ok\<lparr>timers := [(1, 500, RSaveNotes ''a'')], nextId := 2, content := ''a'',
       status := Saving, saveTimeoutRef := Some 1\<rparr>"
  let ?s2 = "react_ok\<lparr>storage := [STORAGE_KEY \<mapsto> ''a''],
       calls := [SetItem testKey ''test'', RemoveItem testKey,
                 SetItem testKey ''test'', RemoveItem testKey, SetItem STORAGE_KEY ''a''],
       now := 500, timers := [(2, 2500, RStatusReset)], nextId := 3, content := ''a'',
       status := Saved, saveTimeoutRef := Some 1, statusTimeoutRef := Some 2\<rparr>"
  let ?s3 = "?s2\<lparr>now := 2400\<rparr>"
  let ?s4 = "?s3\<lparr>timers := [(2, 2500, RStatusReset), (3, 2900, RSaveNotes ''b'')], nextId := 4,
       content := ''b'', status := Saving, saveTimeoutRef := Some 3\<rparr>"
  let ?s5 = "?s4\<lparr>now := 2500, timers := [(3, 2900, RSaveNotes ''b'')], status := Default\<rparr>"
  have e1: "r_step (Input ''a'') react_ok = ?s1"
    by (simp add: react_ok_eq react_eval)
  have e2: "r_step (Elapse 500) ?s1 = ?s2"
    using r_wait_tick [of ?s1 499] by (simp add: react_ok_eq react_eval)
  have e3: "r_step (Elapse 1900) ?s2 = ?s3"
    using r_wait [of ?s2 1900] by (simp add: react_ok_eq react_eval)
  have e4: "r_step (Input ''b'') ?s3 = ?s4"
    by (simp add: react_ok_eq react_eval)
  have e5: "r_step (Elapse 100) ?s4 = ?s5"
    using r_wait_tick [of ?s4 99] by (simp add: react_ok_eq react_eval)
  have "r_run [Input ''a'', Elapse 500, Elapse 1900, Input ''b'', Elapse 100] react_ok = ?s5"
    by (simp only: r_run.simps e1 e2 e3 e4 e5)
  then show ?thesis
    by simp
qed

lemma legacy_ok_two_saves:
  "l_run [Input ''a'', Elapse 500, Elapse 1900, Input ''b'', Elapse 100] legacy_ok =
     legacy_ok\<lparr>storage := [STORAGE_KEY \<mapsto> ''a''],
       calls := [SetItem testKey ''test'', RemoveItem testKey,
                 SetItem testKey ''test'', RemoveItem testKey,
                 SetItem testKey ''test'', RemoveItem testKey, SetItem STORAGE_KEY ''a''],
       now := 2500, timers := [(3, 2900, LSaveNotes)], nextId := 4, notepad_value := ''b'',
       saveTimeout := Some 3, statusTimeout := None, saveStatus_text := ''Saving...'',
       saveIndicator_classes := {''saving''}\<rparr>"
proof -
  let ?t1 = "legacy_ok\<lparr>timers := [(1, 500, LSaveNotes)], nextId := 2, notepad_value := ''a'',
       saveTimeout := Some 1, saveStatus_text := ''Saving...'',
       saveIndicator_classes := {''saving''}\<rparr>"
  let ?t2 = "legacy_ok\<lparr>storage := [STORAGE_KEY \<mapsto> ''a''],
       calls := [SetItem testKey ''test'', RemoveItem testKey,
                 SetItem testKey ''test'', RemoveItem testKey,
                 SetItem testKey ''test'', RemoveItem testKey, SetItem STORAGE_KEY ''a''],
       now := 500, timers := [(2, 2500, LStatusReset)], nextId := 3, notepad_value := ''a'',
       saveTimeout := Some 1, statusTimeout := Some 2, saveStatus_text := ''Saved'',
       saveIndicator_classes := {''saved''}\<rparr>"
  let ?t3 = "?t2\<lparr>now := 2400\<rparr>"
  let ?t4 = "?t3\<lparr>timers := [(3, 2900, LSaveNotes)], nextId := 4, notepad_value := ''b'',
       saveTimeout := Some 3, statusTimeout := None, saveStatus_text := ''Saving...'',
       saveIndicator_classes := {''saving''}\<rparr>"
  let ?t5 = "?t4\<lparr>now := 2500\<rparr>"
  have f1: "l_step (Input ''a'') legacy_ok = ?t1"
    by (simp add: legacy_ok_eq legacy_eval)
  have f2: "l_step (Elapse 500) ?t1 = ?t2"
    using l_wait_tick [of ?t1 499] by (simp add: legacy_ok_eq legacy_eval)
  have f3: "l_step (Elapse 1900) ?t2 = ?t3"
    using l_wait [of ?t2 1900] by (simp add: legacy_ok_eq legacy_eval)
  have f4: "l_step (Input ''b'') ?t3 = ?t4"
    by (simp add: legacy_ok_eq legacy_eval)
  have f5: "l_step (Elapse 100) ?t4 = ?t5"
    using l_wait [of ?t4 100] by (simp add: legacy_ok_eq legacy_eval)
  have "l_run [Input ''a'', Elapse 500, Elapse 1900, Input ''b'', Elapse 100] legacy_ok = ?t5"
    by (simp only: l_run.simps f1 f2 f3 f4 f5)
  then show ?thesis
    by simp
qed

subsection \<open>A session of the user\<close>











section \<open>Properties\<close>

text \<open>
  C7. The availability probe returns false whenever the sentinel write or the sentinel delete
  throws, for whatever reason, and true otherwise; when it returns true the sentinel key is
  no longer in the store; and in every case each key other than the sentinel key holds what
  it held before.
\<close>

theorem C7_probe:
  "fst (isLocalStorageAvailable b) = probe_passes b \<and>
   (fst (isLocalStorageAvailable b) \<longrightarrow> storage (snd (isLocalStorageAvailable b)) testKey = None) \<and>
   (\<forall>k. k \<noteq> testKey \<longrightarrow> storage (snd (isLocalStorageAvailable b)) k = storage b k)"
  by (simp add: isLocalStorageAvailable_def probe_passes_def setItem_def removeItem_def
      split: option.splits)

theorem C7_probe_witness:
  "probe_passes (legacy_start Map.empty never_set never_remove) \<and>
   fst (isLocalStorageAvailable (legacy_start Map.empty never_set never_remove)) \<and>
   STORAGE_KEY \<noteq> testKey \<and>
   storage (snd (isLocalStorageAvailable (legacy_start Map.empty never_set never_remove))) testKey
     = None \<and>
   storage (snd (isLocalStorageAvailable (legacy_start Map.empty never_set never_remove)))
     STORAGE_KEY = None"
proof -
  have p: "probe_passes (legacy_start Map.empty never_set never_remove)"
    by (simp add: probe_passes_def legacy_start_def never_set_def never_remove_def)
  have k: "STORAGE_KEY \<noteq> testKey"
    by (simp add: STORAGE_KEY_def testKey_def)
  have "storage (legacy_start Map.empty never_set never_remove) STORAGE_KEY = None"
    by (simp add: legacy_start_def)
  with p k C7_probe [of "legacy_start Map.empty never_set never_remove"] show ?thesis
    by simp
qed

text \<open>
  C4, as amended. A storage-change notification whose key is the note-content key and whose
  new value differs from the content held locally replaces the local content by the notified
  value, the empty string standing in for a notification without a value. In the component
  the content is then exactly that value. In the script it is that value as the text area
  reports it, every carriage return with the line feed after it, and every other carriage
  return, turned into one line feed; so it is exactly that value whenever the value holds no
  carriage return.
\<close>

theorem C4_storage_notification:
  "(key = Some STORAGE_KEY \<and> newValue \<noteq> Some (notepad_value l) \<longrightarrow>
      notepad_value (handleStorageEvent key newValue l) =
        normalize_newlines (case newValue of None \<Rightarrow> [] | Some v \<Rightarrow> v) \<and>
      (CHR 0x0D \<notin> set (case newValue of None \<Rightarrow> [] | Some v \<Rightarrow> v) \<longrightarrow>
         notepad_value (handleStorageEvent key newValue l) =
           (case newValue of None \<Rightarrow> [] | Some v \<Rightarrow> v))) \<and>
   (key = Some STORAGE_KEY \<and> newValue \<noteq> Some (content r) \<longrightarrow>
      content (handleStorage key newValue r) =
        (case newValue of None \<Rightarrow> [] | Some v \<Rightarrow> v))"
  by (simp add: handleStorageEvent_def set_notepad_value_def handleStorage_def or_empty_def
      normalize_newlines_id)

theorem C4_storage_notification_witness:
  "notepad_value (handleStorageEvent (Some STORAGE_KEY) (Some ''foo'')
     ((legacy_start Map.empty never_set never_remove)\<lparr>notepad_value := ''bar''\<rparr>)) = ''foo'' \<and>
   notepad_value (handleStorageEvent (Some STORAGE_KEY) (Some [CHR ''x'', CHR 0x0D, CHR ''y''])
     ((legacy_start Map.empty never_set never_remove)\<lparr>notepad_value := ''bar''\<rparr>))
     = [CHR ''x'', CHR 0x0A, CHR ''y''] \<and>
   content (handleStorage (Some STORAGE_KEY) None
     ((react_start Map.empty never_set never_remove)\<lparr>content := ''bar''\<rparr>)) = []"
  using C4_storage_notification [where key = "Some STORAGE_KEY" and newValue = "Some ''foo''"
      and l = "(legacy_start Map.empty never_set never_remove)\<lparr>notepad_value := ''bar''\<rparr>"]
    C4_storage_notification [where key = "Some STORAGE_KEY"
      and newValue = "Some [CHR ''x'', CHR 0x0D, CHR ''y'']"
      and l = "(legacy_start Map.empty never_set never_remove)\<lparr>notepad_value := ''bar''\<rparr>"]
    C4_storage_notification [where key = "Some STORAGE_KEY" and newValue = None
      and r = "(react_start Map.empty never_set never_remove)\<lparr>content := ''bar''\<rparr>"]
  by simp

text \<open>
  C4 as stated fails in the script. The page holds no text and is notified of the value
  "x", carriage return, line feed, "y" for the note-content key: the content of the script
  is then "x", line feed, "y", which is not the notified value. The component holds the
  notified value.
\<close>

theorem C4_counterexample:
  "listening legacy_ok \<and> notepad_value legacy_ok = [] \<and>
   notepad_value (l_step (StorageEvent (Some STORAGE_KEY)
       (Some [CHR ''x'', CHR 0x0D, CHR 0x0A, CHR ''y''])) legacy_ok)
     = [CHR ''x'', CHR 0x0A, CHR ''y''] \<and>
   content (r_step (StorageEvent (Some STORAGE_KEY)
       (Some [CHR ''x'', CHR 0x0D, CHR 0x0A, CHR ''y''])) react_ok)
     = [CHR ''x'', CHR 0x0D, CHR 0x0A, CHR ''y'']"
  by (simp add: legacy_ok_eq react_ok_eq l_step_def r_step_def handleStorageEvent_def
      set_notepad_value_def handleStorage_def or_empty_def legacy_start_def react_start_def)

text \<open>
  C10. Handling a storage-change notification changes nothing but the local content: the
  state after it is the state before it with the content replaced, so the store, the record
  of storage calls, the save status and the timers are as they were. A notification for
  another key, or one whose new value is the current local content, changes nothing at all.
  This holds in the script and in the component.
\<close>

theorem C10_storage_notification_frame:
  "handleStorageEvent key newValue l =
     l\<lparr>notepad_value := notepad_value (handleStorageEvent key newValue l)\<rparr> \<and>
   handleStorage key newValue r = r\<lparr>content := content (handleStorage key newValue r)\<rparr> \<and>
   (key \<noteq> Some STORAGE_KEY \<or> newValue = Some (notepad_value l) \<longrightarrow>
      handleStorageEvent key newValue l = l) \<and>
   (key \<noteq> Some STORAGE_KEY \<or> newValue = Some (content r) \<longrightarrow>
      handleStorage key newValue r = r)"
  by (simp add: handleStorageEvent_def set_notepad_value_def handleStorage_def)

theorem C10_storage_notification_frame_witness:
  "handleStorageEvent (Some THEME_KEY) (Some ''dark'')
     (legacy_start Map.empty never_set never_remove) =
     legacy_start Map.empty never_set never_remove \<and>
   handleStorage (Some STORAGE_KEY) (Some ''bar'')
     ((react_start Map.empty never_set never_remove)\<lparr>content := ''bar''\<rparr>) =
     (react_start Map.empty never_set never_remove)\<lparr>content := ''bar''\<rparr>"
proof -
  have k: "Some THEME_KEY \<noteq> Some STORAGE_KEY"
    by (simp add: THEME_KEY_def STORAGE_KEY_def)
  have c: "content ((react_start Map.empty never_set never_remove)\<lparr>content := ''bar''\<rparr>) = ''bar''"
    by simp
  show ?thesis
    using k c
      C10_storage_notification_frame [where key = "Some THEME_KEY" and newValue = "Some ''dark''"
        and l = "legacy_start Map.empty never_set never_remove"
        and r = "react_start Map.empty never_set never_remove"]
      C10_storage_notification_frame [where key = "Some STORAGE_KEY" and newValue = "Some ''bar''"
        and l = "legacy_start Map.empty never_set never_remove"
        and r = "(react_start Map.empty never_set never_remove)\<lparr>content := ''bar''\<rparr>"]
    by metis
qed

text \<open>
  C9. When the theme is initialised, dark mode is on if and only if the stored theme value
  is exactly the string "dark": an absent value, "light" and any other string give light
  mode. This holds for \<^verbatim>\<open>initTheme\<close> and the \<^verbatim>\<open>init\<close> that calls it in the script, and for
  the mount effect of the component (its \<open>isDark\<close> state and the class of the body).
\<close>

theorem C9_theme_initialisation:
  "darkClass (initTheme l) = (storage l THEME_KEY = Some ''dark'') \<and>
   darkClass (init l) = (storage l THEME_KEY = Some ''dark'') \<and>
   isDark (mount r) = (storage r THEME_KEY = Some ''dark'') \<and>
   darkClass (mount r) = (storage r THEME_KEY = Some ''dark'')"
proof -
  have theme: "darkClass (initTheme l) = (storage l THEME_KEY = Some ''dark'')"
    by (simp add: initTheme_def updateThemeUI_def getItem_def)
  have "darkClass (init l) = darkClass (initTheme l)"
    by (simp add: init_def probe_eq showError_def loadNotes_dark Let_def split: bool.splits)
  moreover have "isDark (mount r) = (storage r THEME_KEY = Some ''dark'')"
    by (simp add: mount_def probe_eq updateThemeBody_def getItem_def Let_def
        split: option.splits bool.splits)
  moreover have "darkClass (mount r) = (storage r THEME_KEY = Some ''dark'')"
    by (simp add: mount_def probe_eq updateThemeBody_def getItem_def Let_def
        split: option.splits bool.splits)
  ultimately show ?thesis
    using theme by simp
qed

text \<open>
  C6. When the write of the note content throws, in the script and in the component alike:
  the status becomes the error status, whatever was thrown; the blocking alert is shown if
  the exception is named \<^verbatim>\<open>QuotaExceededError\<close> and no alert is shown for any exception of
  another name; and the exception is consumed by the handler, which ends in an ordinary
  state (\<open>saveNotes\<close> and \<open>r_saveNotes\<close> return the state after the \<^verbatim>\<open>catch\<close> block).
\<close>

theorem C6_write_failure:
  "(probe_passes l \<and> write_throws l = Some e \<longrightarrow>
      saveStatus_text (saveNotes l) = ''Error'' \<and>
      saveIndicator_classes (saveNotes l) \<inter> status_classes = {''error''} \<and>
      (exn_name e = ''QuotaExceededError'' \<longrightarrow> (\<exists>msg. alerts (saveNotes l) = alerts l @ [msg])) \<and>
      (exn_name e \<noteq> ''QuotaExceededError'' \<longrightarrow> alerts (saveNotes l) = alerts l)) \<and>
   (probe_passes r \<and> r_write_throws v r = Some e \<longrightarrow>
      status (r_saveNotes v r) = Error \<and>
      (exn_name e = ''QuotaExceededError'' \<longrightarrow> (\<exists>msg. alerts (r_saveNotes v r) = alerts r @ [msg])) \<and>
      (exn_name e \<noteq> ''QuotaExceededError'' \<longrightarrow> alerts (r_saveNotes v r) = alerts r))"
proof -
  have "saveIndicator_classes (saveNotes l) \<inter> status_classes = {''error''}"
    if "probe_passes l" "write_throws l = Some e"
    using that by (auto simp: saveNotes_throws status_classes_def)
  then show ?thesis
    by (simp add: saveNotes_throws r_saveNotes_throws)
qed

theorem C6_write_failure_witness:
  "probe_passes (legacy_start Map.empty (sentinel_only (Exn ''QuotaExceededError'')) never_remove) \<and>
   write_throws (legacy_start Map.empty (sentinel_only (Exn ''QuotaExceededError'')) never_remove)
     = Some (Exn ''QuotaExceededError'') \<and>
   saveStatus_text
     (saveNotes (legacy_start Map.empty (sentinel_only (Exn ''QuotaExceededError'')) never_remove))
     = ''Error'' \<and>
   alerts
     (saveNotes (legacy_start Map.empty (sentinel_only (Exn ''QuotaExceededError'')) never_remove))
     \<noteq> [] \<and>
   probe_passes (react_start Map.empty (sentinel_only (Exn ''SecurityError'')) never_remove) \<and>
   r_write_throws ''x'' (react_start Map.empty (sentinel_only (Exn ''SecurityError'')) never_remove)
     = Some (Exn ''SecurityError'') \<and>
   status (r_saveNotes ''x''
     (react_start Map.empty (sentinel_only (Exn ''SecurityError'')) never_remove)) = Error \<and>
   alerts (r_saveNotes ''x''
     (react_start Map.empty (sentinel_only (Exn ''SecurityError'')) never_remove)) = []"
proof -
  let ?l = "legacy_start Map.empty (sentinel_only (Exn ''QuotaExceededError'')) never_remove"
  let ?r = "react_start Map.empty (sentinel_only (Exn ''SecurityError'')) never_remove"
  have h1: "probe_passes ?l" and h2: "probe_passes ?r"
    by (simp_all add: probe_passes_def legacy_start_def react_start_def sentinel_only_def
        never_remove_def)
  have h3: "write_throws ?l = Some (Exn ''QuotaExceededError'')"
    by (simp add: write_throws_def legacy_start_def sentinel_only_def STORAGE_KEY_def testKey_def)
  have h4: "r_write_throws ''x'' ?r = Some (Exn ''SecurityError'')"
    by (simp add: r_write_throws_def react_start_def sentinel_only_def STORAGE_KEY_def
        testKey_def)
  have h5: "alerts ?l = []" and h6: "alerts ?r = []"
    by (simp_all add: legacy_start_def react_start_def)
  have a: "saveStatus_text (saveNotes ?l) = ''Error'' \<and> (\<exists>msg. alerts (saveNotes ?l) = alerts ?l @ [msg])"
    using h1 h3 C6_write_failure [where l = ?l and e = "Exn ''QuotaExceededError''"]
    by simp
  have b: "status (r_saveNotes ''x'' ?r) = Error \<and> alerts (r_saveNotes ''x'' ?r) = alerts ?r"
    using h2 h4 C6_write_failure [where r = ?r and e = "Exn ''SecurityError''" and v = "''x''"]
    by simp
  from a have "alerts (saveNotes ?l) \<noteq> []"
    by auto
  with a b h1 h2 h3 h4 h6 show ?thesis
    by simp
qed

text \<open>
  C8. In every state the script or the component can reach, at most one save timer and at
  most one status-reset timer are live, and each live timer is the one whose handle the code
  holds in its handle variable for that kind: every operation that schedules a timer has
  cleared the timer of that variable first.
\<close>

theorem C8_at_most_one_timer:
  "(legacy_reachable l \<longrightarrow>
      length (l_save_timers l) \<le> 1 \<and> length (l_status_timers l) \<le> 1 \<and>
      (\<forall>tm\<in>set (l_save_timers l). saveTimeout l = Some (fst tm)) \<and>
      (\<forall>tm\<in>set (l_status_timers l). statusTimeout l = Some (fst tm))) \<and>
   (react_reachable r \<longrightarrow>
      length (r_save_timers r) \<le> 1 \<and> length (r_status_timers r) \<le> 1 \<and>
      (\<forall>tm\<in>set (r_save_timers r). saveTimeoutRef r = Some (fst tm)) \<and>
      (\<forall>tm\<in>set (r_status_timers r). statusTimeoutRef r = Some (fst tm)))"
proof (intro conjI impI)
  assume "legacy_reachable l"
  then have inv: "timers_wf l_is_save (timers l) (nextId l) (saveTimeout l) (statusTimeout l)"
    using legacy_reachable_inv by (simp add: l_inv_def)
  from timers_wf_at_most_one [OF inv]
  show "length (l_save_timers l) \<le> 1" and "length (l_status_timers l) \<le> 1"
    by (simp_all add: l_save_timers_def l_status_timers_def)
  from inv show "\<forall>tm\<in>set (l_save_timers l). saveTimeout l = Some (fst tm)"
    and "\<forall>tm\<in>set (l_status_timers l). statusTimeout l = Some (fst tm)"
    by (simp_all add: timers_wf_def l_save_timers_def l_status_timers_def)
next
  assume "react_reachable r"
  then have inv:
    "timers_wf r_is_save (timers r) (nextId r) (saveTimeoutRef r) (statusTimeoutRef r)"
    using react_reachable_inv by (simp add: r_inv_def)
  from timers_wf_at_most_one [OF inv]
  show "length (r_save_timers r) \<le> 1" and "length (r_status_timers r) \<le> 1"
    by (simp_all add: r_save_timers_def r_status_timers_def)
  from inv show "\<forall>tm\<in>set (r_save_timers r). saveTimeoutRef r = Some (fst tm)"
    and "\<forall>tm\<in>set (r_status_timers r). statusTimeoutRef r = Some (fst tm)"
    by (simp_all add: timers_wf_def r_save_timers_def r_status_timers_def)
qed

theorem C8_at_most_one_timer_witness:
  "legacy_reachable (l_step (Input ''a'') (init (legacy_start Map.empty never_set never_remove))) \<and>
   l_save_timers (l_step (Input ''a'') (init (legacy_start Map.empty never_set never_remove)))
     = [(1, 500, LSaveNotes)] \<and>
   saveTimeout (l_step (Input ''a'') (init (legacy_start Map.empty never_set never_remove)))
     = Some 1 \<and>
   react_reachable (r_step (Input ''a'') (mount (react_start Map.empty never_set never_remove))) \<and>
   r_save_timers (r_step (Input ''a'') (mount (react_start Map.empty never_set never_remove)))
     = [(1, 500, RSaveNotes ''a'')] \<and>
   saveTimeoutRef (r_step (Input ''a'') (mount (react_start Map.empty never_set never_remove)))
     = Some 1"
proof -
  let ?l = "l_step (Input ''a'') (init (legacy_start Map.empty never_set never_remove))"
  let ?r = "r_step (Input ''a'') (mount (react_start Map.empty never_set never_remove))"
  have "legacy_reachable (init (legacy_start Map.empty never_set never_remove))"
    by (rule l_start) (simp_all add: legacy_start_def)
  then have rl: "legacy_reachable ?l"
    by (rule l_event)
  have "react_reachable (mount (react_start Map.empty never_set never_remove))"
    by (rule r_start) (simp_all add: react_start_def)
  then have rr: "react_reachable ?r"
    by (rule r_event)
  have pl: "probe_passes (initTheme (legacy_start Map.empty never_set never_remove))"
    by (simp add: probe_passes_def initTheme_def updateThemeUI_def getItem_def legacy_start_def
        never_set_def never_remove_def)
  have tl: "l_save_timers ?l = [(1, 500, LSaveNotes)]"
    by (simp add: l_step_def init_def Let_def probe_eq pl loadNotes_def getItem_try_def set_notepad_value_def probe_passes_def
        initTheme_def updateThemeUI_def getItem_def legacy_start_def never_set_def
        never_remove_def updateSaveStatus_default handleInput_eq l_save_timers_def l_is_save_def
        AUTOSAVE_DELAY_def probe_storage_def)
  have tr: "r_save_timers ?r = [(1, 500, RSaveNotes ''a'')]"
    by (simp add: r_step_def mount_def Let_def probe_eq probe_passes_def updateThemeBody_def
        getItem_def react_start_def never_set_def never_remove_def r_handleInput_eq
        r_save_timers_def AUTOSAVE_DELAY_def probe_storage_def)
  from rl rr tl tr C8_at_most_one_timer [of ?l ?r] show ?thesis
    by simp
qed

text \<open>
  C1, as amended. Take any content-change event followed by any finite sequence of further
  ones, each less than the debounce delay after the one before it, and then a quiet period
  of at least the debounce delay. The save that then runs first probes the store. If the
  probe passes, exactly one \<^verbatim>\<open>setItem\<close> call for the note-content key has been made since
  the first event, its value is the content as of the last event, and the store holds that
  value if the call did not throw; if the probe fails, no call for the note-content key has
  been made. Afterwards no save timer is live. Each content-change event sets the status to
  saving at once and leaves exactly one save timer live, the one it schedules, due one
  debounce delay later. In the script the events are handled once \<open>init\<close> has registered
  the listeners.
\<close>

theorem C1_debounce_coalescing:
  assumes gaps: "\<forall>g\<in>set (map fst gs). g < AUTOSAVE_DELAY" and quiet: "AUTOSAVE_DELAY \<le> q"
  shows
    "(legacy_reachable l \<and> listening l \<longrightarrow>
        notes_writes (calls (l_run (Input v # burst gs @ [Elapse q]) l)) =
          notes_writes (calls l) @ (if probe_passes l then [last (v # map snd gs)] else []) \<and>
        (probe_passes l \<and>
         setItemThrows l (probe_storage l) STORAGE_KEY (last (v # map snd gs)) = None \<longrightarrow>
           storage (l_run (Input v # burst gs @ [Elapse q]) l) STORAGE_KEY =
             Some (last (v # map snd gs))) \<and>
        l_save_timers (l_run (Input v # burst gs @ [Elapse q]) l) = [] \<and>
        saveStatus_text (l_step (Input v) l) = ''Saving...'' \<and>
        l_save_timers (l_step (Input v) l) = [(nextId l, now l + AUTOSAVE_DELAY, LSaveNotes)]) \<and>
     (react_reachable r \<longrightarrow>
        notes_writes (calls (r_run (Input v # burst gs @ [Elapse q]) r)) =
          notes_writes (calls r) @ (if probe_passes r then [last (v # map snd gs)] else []) \<and>
        (probe_passes r \<and>
         setItemThrows r (probe_storage r) STORAGE_KEY (last (v # map snd gs)) = None \<longrightarrow>
           storage (r_run (Input v # burst gs @ [Elapse q]) r) STORAGE_KEY =
             Some (last (v # map snd gs))) \<and>
        r_save_timers (r_run (Input v # burst gs @ [Elapse q]) r) = [] \<and>
        status (r_step (Input v) r) = Saving \<and>
        r_save_timers (r_step (Input v) r) = [(nextId r, now r + AUTOSAVE_DELAY, RSaveNotes v)])"
proof (intro conjI impI)
  assume "legacy_reachable l \<and> listening l"
  then have inv: "l_inv l" and li: "listening l"
    by (simp_all add: legacy_reachable_inv)
  note b = l_burst_run [OF gaps quiet inv li, of v]
  show "notes_writes (calls (l_run (Input v # burst gs @ [Elapse q]) l)) =
          notes_writes (calls l) @ (if probe_passes l then [last (v # map snd gs)] else [])"
    by (rule b(1))
  show "storage (l_run (Input v # burst gs @ [Elapse q]) l) STORAGE_KEY =
          Some (last (v # map snd gs))"
    if "probe_passes l \<and>
        setItemThrows l (probe_storage l) STORAGE_KEY (last (v # map snd gs)) = None"
    using that by (rule b(2))
  show "l_save_timers (l_run (Input v # burst gs @ [Elapse q]) l) = []"
    by (rule b(3))
  show "saveStatus_text (l_step (Input v) l) = ''Saving...''"
    by (rule b(4))
  show "l_save_timers (l_step (Input v) l) = [(nextId l, now l + AUTOSAVE_DELAY, LSaveNotes)]"
    by (rule b(5))
next
  assume "react_reachable r"
  then have inv: "r_inv r" and li: "isLoaded r"
    by (simp_all add: react_reachable_inv react_reachable_loaded)
  note b = r_burst_run [OF gaps quiet inv li, of v]
  show "notes_writes (calls (r_run (Input v # burst gs @ [Elapse q]) r)) =
          notes_writes (calls r) @ (if probe_passes r then [last (v # map snd gs)] else [])"
    by (rule b(1))
  show "storage (r_run (Input v # burst gs @ [Elapse q]) r) STORAGE_KEY =
          Some (last (v # map snd gs))"
    if "probe_passes r \<and>
        setItemThrows r (probe_storage r) STORAGE_KEY (last (v # map snd gs)) = None"
    using that by (rule b(2))
  show "r_save_timers (r_run (Input v # burst gs @ [Elapse q]) r) = []"
    by (rule b(3))
  show "status (r_step (Input v) r) = Saving"
    by (rule b(4))
  show "r_save_timers (r_step (Input v) r) = [(nextId r, now r + AUTOSAVE_DELAY, RSaveNotes v)]"
    by (rule b(5))
qed

theorem C1_debounce_coalescing_witness:
  "legacy_reachable legacy_ok \<and> listening legacy_ok \<and> probe_passes legacy_ok \<and>
   notes_writes (calls (l_run [Input ''a'', Elapse 100, Input ''ab'', Elapse 500] legacy_ok))
     = [''ab''] \<and>
   storage (l_run [Input ''a'', Elapse 100, Input ''ab'', Elapse 500] legacy_ok) STORAGE_KEY
     = Some ''ab'' \<and>
   react_reachable react_ok \<and> probe_passes react_ok \<and>
   notes_writes (calls (r_run [Input ''a'', Elapse 100, Input ''ab'', Elapse 500] react_ok))
     = [''ab''] \<and>
   storage (r_run [Input ''a'', Elapse 100, Input ''ab'', Elapse 500] react_ok) STORAGE_KEY
     = Some ''ab''"
proof -
  have gaps: "\<forall>g\<in>set (map fst [(100::nat, ''ab'')]). g < AUTOSAVE_DELAY"
    and quiet: "AUTOSAVE_DELAY \<le> 500"
    by (simp_all add: AUTOSAVE_DELAY_def)
  have b: "Input ''a'' # burst [(100, ''ab'')] @ [Elapse 500]
      = [Input ''a'', Elapse 100, Input ''ab'', Elapse 500]"
    by (simp add: burst_def)
  have li: "listening legacy_ok"
    by (simp add: legacy_ok_eq)
  have pl: "probe_passes legacy_ok"
    and wl: "setItemThrows legacy_ok (probe_storage legacy_ok) STORAGE_KEY ''ab'' = None"
    and cl: "notes_writes (calls legacy_ok) = []"
    by (simp_all add: legacy_ok_eq legacy_start_def probe_passes_def never_set_def
        never_remove_def notes_writes_def List.map_filter_def testKey_def STORAGE_KEY_def)
  have pr: "probe_passes react_ok"
    and wr: "setItemThrows react_ok (probe_storage react_ok) STORAGE_KEY ''ab'' = None"
    and cr: "notes_writes (calls react_ok) = []"
    by (simp_all add: react_ok_eq react_start_def probe_passes_def never_set_def
        never_remove_def notes_writes_def List.map_filter_def testKey_def STORAGE_KEY_def)
  from C1_debounce_coalescing [OF gaps quiet, where l = legacy_ok and r = react_ok
      and v = "''a''"]
  show ?thesis
    unfolding b using legacy_ok_reachable react_ok_reachable li pl wl cl pr wr cr by simp
qed

text \<open>
  C1 as stated fails where the store is unavailable. The component is started on a store
  whose every write throws; the user types "a" and, 100 ms later, "ab"; 500 ms later the
  save has run, its probe has failed, and no write of the note-content key has been made:
  the two storage calls on record are the sentinel writes of the two probes.
\<close>

theorem C1_counterexample:
  "notes_writes (calls (r_run [Input ''a'', Elapse 100, Input ''ab'', Elapse 500] react_blocked))
     = [] \<and>
   calls (r_run [Input ''a'', Elapse 100, Input ''ab'', Elapse 500] react_blocked)
     = [SetItem testKey ''test'', SetItem testKey ''test''] \<and>
   status (r_run [Input ''a'', Elapse 100, Input ''ab'', Elapse 500] react_blocked) = Error"
proof -
  let ?s1 = "react_blocked\<lparr>timers := [(1, 500, RSaveNotes ''a'')], nextId := 2,
       content := ''a'', status := Saving, saveTimeoutRef := Some 1\<rparr>"
  let ?s2 = "?s1\<lparr>now := 100\<rparr>"
  let ?s3 = "?s2\<lparr>timers := [(2, 600, RSaveNotes ''ab'')], nextId := 3, content := ''ab'',
       saveTimeoutRef := Some 2\<rparr>"
  let ?s4 = "?s3\<lparr>now := 600, timers := [], status := Error,
       calls := [SetItem testKey ''test'', SetItem testKey ''test'']\<rparr>"
  have e1: "r_step (Input ''a'') react_blocked = ?s1"
    by (simp add: react_blocked_eq react_eval)
  have e2: "r_step (Elapse 100) ?s1 = ?s2"
    using r_wait [of ?s1 100] by (simp add: react_blocked_eq react_eval)
  have e3: "r_step (Input ''ab'') ?s2 = ?s3"
    by (simp add: react_blocked_eq react_eval)
  have e4: "r_step (Elapse 500) ?s3 = ?s4"
    using r_wait_tick [of ?s3 499] by (simp add: react_blocked_eq react_eval)
  have "r_run [Input ''a'', Elapse 100, Input ''ab'', Elapse 500] react_blocked = ?s4"
    by (simp only: r_run.simps e1 e2 e3 e4)
  then show ?thesis
    by (simp add: notes_writes_def List.map_filter_def testKey_def STORAGE_KEY_def)
qed

text \<open>
  C2. A content-change event that arrives while the status is saved or error is to cancel
  the outstanding status-reset timer, so that no later firing of it can bring the status to
  default while the new save is pending. The script does this: \<open>updateSaveStatus\<close> clears
  the status handle first. The component does not: \<open>r_handleInput\<close> leaves the status-reset
  timer alone. The component is started on a store that never throws. The user types "a";
  after 500 ms the save runs, the status is saved and the status-reset timer is due at
  2500 ms. At 2400 ms the user types "b": the status is saving and the save is due at
  2900 ms. At 2500 ms the status-reset timer of the first save runs: the component's status
  is default although the save of "b" is still pending. On the same events the script still
  shows the saving text.
\<close>

theorem C2_component_reset_during_saving:
  "status (r_run [Input ''a'', Elapse 500, Elapse 1900, Input ''b'', Elapse 100] react_ok)
     = Default \<and>
   r_save_timers (r_run [Input ''a'', Elapse 500, Elapse 1900, Input ''b'', Elapse 100] react_ok)
     = [(3, 2900, RSaveNotes ''b'')] \<and>
   saveStatus_text (l_run [Input ''a'', Elapse 500, Elapse 1900, Input ''b'', Elapse 100] legacy_ok)
     = ''Saving...'' \<and>
   l_save_timers (l_run [Input ''a'', Elapse 500, Elapse 1900, Input ''b'', Elapse 100] legacy_ok)
     = [(3, 2900, LSaveNotes)]"
  unfolding react_ok_two_saves legacy_ok_two_saves
  by (simp add: r_save_timers_def l_save_timers_def l_is_save_def)

text \<open>
  C5. When the page becomes hidden or is about to unload, a pending save timer is to be
  cancelled and the outstanding content written at once; with no save timer pending,
  nothing is to be written. The code fails this at two places, shown here on a store that
  never throws. Neither the script nor the component resets the save handle when the save
  timer has run: 500 ms after "a" was typed the save has run and no save timer is pending,
  yet hiding the page writes "a" a second time. And the component's unload handler writes
  the content without cancelling the save timer: after the unload signal the timer is
  still live, and 500 ms later it writes "a" a second time. The script, on the unload
  signal, cancels the timer and writes once.
\<close>

theorem C5_flush_defects:
  "l_save_timers (l_run [Input ''a'', Elapse 500] legacy_ok) = [] \<and>
   notes_writes (calls (l_run [Input ''a'', Elapse 500] legacy_ok)) = [''a''] \<and>
   notes_writes (calls (l_run [Input ''a'', Elapse 500, VisibilityChange True] legacy_ok))
     = [''a'', ''a''] \<and>
   r_save_timers (r_run [Input ''a'', Elapse 500] react_ok) = [] \<and>
   notes_writes (calls (r_run [Input ''a'', Elapse 500] react_ok)) = [''a''] \<and>
   notes_writes (calls (r_run [Input ''a'', Elapse 500, VisibilityChange True] react_ok))
     = [''a'', ''a''] \<and>
   r_save_timers (r_run [Input ''a''] react_ok) = [(1, 500, RSaveNotes ''a'')] \<and>
   r_save_timers (r_run [Input ''a'', BeforeUnload] react_ok) = [(1, 500, RSaveNotes ''a'')] \<and>
   notes_writes (calls (r_run [Input ''a'', BeforeUnload, Elapse 500] react_ok))
     = [''a'', ''a''] \<and>
   l_save_timers (l_run [Input ''a'', BeforeUnload] legacy_ok) = [] \<and>
   notes_writes (calls (l_run [Input ''a'', BeforeUnload, Elapse 500] legacy_ok)) = [''a'']"
proof -
  let ?t1 = "legacy_ok\<lparr>timers := [(1, 500, LSaveNotes)], nextId := 2, notepad_value := ''a'',
       saveTimeout := Some 1, saveStatus_text := ''Saving...'',
       saveIndicator_classes := {''saving''}\<rparr>"
  let ?t2 = "legacy_ok\<lparr>storage := [STORAGE_KEY \<mapsto> ''a''],
       calls := [SetItem testKey ''test'', RemoveItem testKey,
                 SetItem testKey ''test'', RemoveItem testKey,
                 SetItem testKey ''test'', RemoveItem testKey, SetItem STORAGE_KEY ''a''],
       now := 500, timers := [(2, 2500, LStatusReset)], nextId := 3, notepad_value := ''a'',
       saveTimeout := Some 1, statusTimeout := Some 2, saveStatus_text := ''Saved'',
       saveIndicator_classes := {''saved''}\<rparr>"
  have t1: "l_step (Input ''a'') legacy_ok = ?t1"
    by (simp add: legacy_ok_eq legacy_eval)
  have t2: "l_step (Elapse 500) ?t1 = ?t2"
    using l_wait_tick [of ?t1 499] by (simp add: legacy_ok_eq legacy_eval)
  have t3: "notes_writes (calls (l_step (VisibilityChange True) ?t2)) = [''a'', ''a'']"
    by (simp add: legacy_ok_eq legacy_eval notes_writes_def List.map_filter_def testKey_def
        STORAGE_KEY_def)
  let ?r1 = "react_ok\<lparr>timers := [(1, 500, RSaveNotes ''a'')], nextId := 2, content := ''a'',
       status := Saving, saveTimeoutRef := Some 1\<rparr>"
  let ?r2 = "react_ok\<lparr>storage := [STORAGE_KEY \<mapsto> ''a''],
       calls := [SetItem testKey ''test'', RemoveItem testKey,
                 SetItem testKey ''test'', RemoveItem testKey, SetItem STORAGE_KEY ''a''],
       now := 500, timers := [(2, 2500, RStatusReset)], nextId := 3, content := ''a'',
       status := Saved, saveTimeoutRef := Some 1, statusTimeoutRef := Some 2\<rparr>"
  have r1: "r_step (Input ''a'') react_ok = ?r1"
    by (simp add: react_ok_eq react_eval)
  have r2: "r_step (Elapse 500) ?r1 = ?r2"
    using r_wait_tick [of ?r1 499] by (simp add: react_ok_eq react_eval)
  have r3: "notes_writes (calls (r_step (VisibilityChange True) ?r2)) = [''a'', ''a'']"
    by (simp add: react_ok_eq react_eval notes_writes_def List.map_filter_def testKey_def
        STORAGE_KEY_def)
  let ?t4 = "legacy_ok\<lparr>storage := [STORAGE_KEY \<mapsto> ''a''],
       calls := [SetItem testKey ''test'', RemoveItem testKey,
                 SetItem testKey ''test'', RemoveItem testKey,
                 SetItem testKey ''test'', RemoveItem testKey, SetItem STORAGE_KEY ''a''],
       timers := [(2, 2000, LStatusReset)], nextId := 3, notepad_value := ''a'',
       saveTimeout := Some 1, statusTimeout := Some 2, saveStatus_text := ''Saved'',
       saveIndicator_classes := {''saved''}\<rparr>"
  let ?r4 = "react_ok\<lparr>storage := [STORAGE_KEY \<mapsto> ''a''],
       calls := [SetItem testKey ''test'', RemoveItem testKey,
                 SetItem testKey ''test'', RemoveItem testKey, SetItem STORAGE_KEY ''a''],
       timers := [(1, 500, RSaveNotes ''a''), (2, 2000, RStatusReset)], nextId := 3,
       content := ''a'', status := Saved, saveTimeoutRef := Some 1,
       statusTimeoutRef := Some 2\<rparr>"
  have t4: "l_step BeforeUnload ?t1 = ?t4"
    by (simp add: legacy_ok_eq legacy_eval)
  have r4: "r_step BeforeUnload ?r1 = ?r4"
    by (simp add: react_ok_eq react_eval)
  have t5: "notes_writes (calls (l_step (Elapse 500) ?t4)) = [''a'']"
    using l_wait [of ?t4 500]
    by (simp add: legacy_ok_eq legacy_eval notes_writes_def List.map_filter_def testKey_def
        STORAGE_KEY_def)
  have r5: "notes_writes (calls (r_step (Elapse 500) ?r4)) = [''a'', ''a'']"
    using r_wait_tick [of ?r4 499]
    by (simp add: react_ok_eq react_eval notes_writes_def List.map_filter_def testKey_def
        STORAGE_KEY_def)
  have a1: "l_run [Input ''a'', Elapse 500] legacy_ok = ?t2"
    and a2: "l_run [Input ''a'', Elapse 500, VisibilityChange True] legacy_ok
      = l_step (VisibilityChange True) ?t2"
    and a3: "r_run [Input ''a'', Elapse 500] react_ok = ?r2"
    and a4: "r_run [Input ''a'', Elapse 500, VisibilityChange True] react_ok
      = r_step (VisibilityChange True) ?r2"
    and a5: "r_run [Input ''a''] react_ok = ?r1"
    and a6: "r_run [Input ''a'', BeforeUnload] react_ok = ?r4"
    and a7: "r_run [Input ''a'', BeforeUnload, Elapse 500] react_ok = r_step (Elapse 500) ?r4"
    and a8: "l_run [Input ''a'', BeforeUnload] legacy_ok = ?t4"
    and a9: "l_run [Input ''a'', BeforeUnload, Elapse 500] legacy_ok = l_step (Elapse 500) ?t4"
    by (simp_all only: l_run.simps r_run.simps t1 t2 r1 r2 t4 r4)
  show ?thesis
    unfolding a1 a2 a3 a4 a5 a6 a7 a8 a9 t3 r3 t5 r5
    by (simp add: l_save_timers_def l_is_save_def r_save_timers_def notes_writes_def
        List.map_filter_def testKey_def STORAGE_KEY_def)
qed




end
